theory Spec2Isabelle
  imports Main
begin

section \<open>Shared data of both packages\<close>

text \<open>
  A Go \<^verbatim>\<open>string\<close> and a \<^verbatim>\<open>[]byte\<close> are sequences of bytes. A HOL \<^typ>\<open>char\<close> is
  one byte, so both are modelled as \<^typ>\<open>string\<close>; \<^verbatim>\<open>len\<close> is \<^const>\<open>length\<close>.

  The log messages of the source are Russian sentences. They are rendered here by
  ASCII glosses; no property below depends on their wording.
\<close>

datatype level = Debug | Info | Error | Fatal

text \<open>
  Go error values. \<open>OpError m\<close> is a \<^verbatim>\<open>*net.OpError\<close> whose inner \<^verbatim>\<open>Err.Error()\<close> is
  \<open>m\<close>; \<open>ErrorString m\<close> is what \<^verbatim>\<open>errors.New\<close> and \<^verbatim>\<open>fmt.Errorf\<close> build.
\<close>

datatype error =
    ErrorString string
  | OpError string
  | KeySizeError nat
  | EOF
  | ErrUnexpectedEOF

section \<open>Package crypt: the handshake encryption\<close>

subsection \<open>encoding/base64, standard alphabet with padding\<close>

definition encodeStd :: string where
  "encodeStd = ''ABCDEFGHIJKLMNOPQRSTUVWXYZabcdefghijklmnopqrstuvwxyz0123456789+/''"

text \<open>\<^verbatim>\<open>enc.encode[val>>k&0x3F]\<close>: the index is masked to six bits before the lookup.\<close>

definition enc6 :: "nat \<Rightarrow> char" where
  "enc6 v = encodeStd ! (v mod 64)"

fun EncodeToString :: "string \<Rightarrow> string" where
  "EncodeToString [] = []"
| "EncodeToString [a] =
     (let val = of_char a * 65536
      in [enc6 (val div 262144), enc6 (val div 4096), CHR ''='', CHR ''=''])"
| "EncodeToString [a, b] =
     (let val = of_char a * 65536 + of_char b * 256
      in [enc6 (val div 262144), enc6 (val div 4096), enc6 (val div 64), CHR ''=''])"
| "EncodeToString (a # b # c # rest) =
     (let val = of_char a * 65536 + of_char b * 256 + of_char c
      in enc6 (val div 262144) # enc6 (val div 4096) # enc6 (val div 64) # enc6 val
         # EncodeToString rest)"

text \<open>
  The decoder is the receiving side's half (RFC 4648); the repository only encodes.
  It is here to state what the encoded blob contains.
\<close>

fun index_of :: "'a \<Rightarrow> 'a list \<Rightarrow> nat option" where
  "index_of x [] = None"
| "index_of x (y # ys) = (if x = y then Some 0 else map_option Suc (index_of x ys))"

definition dec6 :: "char \<Rightarrow> nat option" where
  "dec6 c = index_of c encodeStd"

fun DecodeString :: "string \<Rightarrow> string option" where
  "DecodeString [] = Some []"
| "DecodeString (c0 # c1 # c2 # c3 # rest) =
     (case (dec6 c0, dec6 c1) of
        (Some i0, Some i1) \<Rightarrow>
          (if c2 = CHR ''='' \<and> c3 = CHR ''='' \<and> rest = [] then
             Some [char_of ((i0 * 262144 + i1 * 4096) div 65536)]
           else
             (case dec6 c2 of
                Some i2 \<Rightarrow>
                  (if c3 = CHR ''='' \<and> rest = [] then
                     (let val = i0 * 262144 + i1 * 4096 + i2 * 64
                      in Some [char_of (val div 65536), char_of (val div 256)])
                   else
                     (case dec6 c3 of
                        Some i3 \<Rightarrow>
                          (let val = i0 * 262144 + i1 * 4096 + i2 * 64 + i3
                           in map_option
                                (\<lambda>bs. char_of (val div 65536) # char_of (val div 256)
                                       # char_of val # bs)
                                (DecodeString rest))
                      | None \<Rightarrow> None))
              | None \<Rightarrow> None))
      | _ \<Rightarrow> None)"
| "DecodeString _ = None"

subsection \<open>The library calls of EncryptHandshake\<close>

text \<open>
  What the process and the standard library give to \<^verbatim>\<open>EncryptHandshake\<close>:
  the value of the environment variable \<^verbatim>\<open>HANDSHAKE_SECRET\<close>, the bytes that
  \<^verbatim>\<open>crypto/rand.Reader\<close> delivers (or its error), and AES-GCM sealing, a function of
  key, nonce, plaintext and additional data that returns ciphertext and tag.
\<close>

record crypto_env =
  HANDSHAKE_SECRET :: string
  rand_Reader :: "error + string"
  gcm_seal :: "string \<Rightarrow> string \<Rightarrow> string \<Rightarrow> string \<Rightarrow> string"

text \<open>What \<^verbatim>\<open>EncryptHandshake\<close> does besides returning, in order.\<close>

datatype crypto_event =
    CLog level string
  | CNewCipher
  | CNewGCM
  | CRandRead nat
  | CSeal string string

text \<open>\<^verbatim>\<open>aes.NewCipher\<close> accepts keys of 16, 24 or 32 bytes; the block is its key.\<close>

definition aes_NewCipher :: "string \<Rightarrow> error + string" where
  "aes_NewCipher key =
     (if length key = 16 \<or> length key = 24 \<or> length key = 32 then Inr key
      else Inl (KeySizeError (length key)))"

text \<open>\<^verbatim>\<open>cipher.NewGCM\<close> fails only for a block size other than 16; that of AES is 16.\<close>

definition cipher_NewGCM :: "string \<Rightarrow> error + string" where
  "cipher_NewGCM block = Inr block"

definition NonceSize :: nat where
  "NonceSize = 12"

text \<open>
  \<^verbatim>\<open>io.ReadFull(r, buf)\<close> fills \<open>buf\<close> or fails: a source that ends before the first
  byte gives \<^verbatim>\<open>io.EOF\<close>, one that ends after some but not all bytes gives
  \<^verbatim>\<open>io.ErrUnexpectedEOF\<close>.
\<close>

definition io_ReadFull :: "error + string \<Rightarrow> nat \<Rightarrow> error + string" where
  "io_ReadFull r n =
     (case r of
        Inl e \<Rightarrow> Inl e
      | Inr bs \<Rightarrow>
          if n \<le> length bs then Inr (take n bs)
          else if bs = [] then Inl EOF
          else Inl ErrUnexpectedEOF)"

text \<open>\<^verbatim>\<open>aesgcm.Seal(dst, nonce, plaintext, additionalData)\<close> appends to \<open>dst\<close>.\<close>

definition Seal :: "crypto_env \<Rightarrow> string \<Rightarrow> string \<Rightarrow> string \<Rightarrow> string \<Rightarrow> string \<Rightarrow> string" where
  "Seal env aesgcm dst nonce plaintext ad = dst @ gcm_seal env aesgcm nonce plaintext ad"

definition InvalidKeyLength :: error where
  "InvalidKeyLength = ErrorString ''key must be 32 bytes''"

subsection \<open>EncryptHandshake\<close>

definition EncryptHandshake :: "crypto_env \<Rightarrow> string \<Rightarrow> crypto_event list \<times> (error + string)" where
  "EncryptHandshake env plaintext =
     (let key = HANDSHAKE_SECRET env;
          ev0 = [CLog Info key]
      in if length key \<noteq> 32 then (ev0, Inl InvalidKeyLength)
         else
           (let ev1 = ev0 @ [CNewCipher]
            in case aes_NewCipher key of
                 Inl err \<Rightarrow> (ev1, Inl err)
               | Inr block \<Rightarrow>
                   (let ev2 = ev1 @ [CNewGCM]
                    in case cipher_NewGCM block of
                         Inl err \<Rightarrow> (ev2, Inl err)
                       | Inr aesgcm \<Rightarrow>
                           (let ev3 = ev2 @ [CRandRead NonceSize]
                            in case io_ReadFull (rand_Reader env) NonceSize of
                                 Inl err \<Rightarrow> (ev3, Inl err)
                               | Inr nonce \<Rightarrow>
                                   (let ciphertext = Seal env aesgcm nonce nonce plaintext []
                                    in (ev3 @ [CSeal nonce plaintext],
                                        Inr (EncodeToString ciphertext)))))))"


section \<open>Package socket: the tunnels\<close>

subsection \<open>Configuration, connections and the observable world\<close>

record Tunnel =
  localAddr :: string
  handshake :: string

text \<open>The package-level variables read from the process environment.\<close>

record config =
  serverAddr :: string
  serverPort :: string
  serverSocket :: string

definition tunnels :: "config \<Rightarrow> Tunnel list" where
  "tunnels cfg =
     [\<lparr>localAddr = serverSocket cfg, handshake = ''usbmuxd''\<rparr>,
      \<lparr>localAddr = ''127.0.0.1:7777'', handshake = ''forward''\<rparr>]"

text \<open>
  A non-nil \<^verbatim>\<open>net.Conn\<close> is the number of the connection; a \<^verbatim>\<open>net.Conn\<close> that may be
  nil is a \<open>conn option\<close>.
\<close>

type_synonym conn = nat

datatype node = Directory | RegularFile | SocketFile

text \<open>
  Every call that leaves the process is an event, with the result it had. The trace of
  events is what the code did; a connection is closed once \<^verbatim>\<open>Close\<close> was called on it.
\<close>

datatype event =
    Log level string
  | DialRelay string "error option"
  | DialLocal string "error option"
  | Write conn string "error option"
  | Copied conn conn "error option"
  | Close conn
  | Remove string "error option"
  | MkdirAll string "error option"
  | Listen string string "error option"
  | Accept "error + conn"
  | Splice conn conn
  | Spawn conn conn

record world =
  trace :: "event list"
  next_conn :: conn
  files :: "(string \<times> node) list"

definition emit :: "event \<Rightarrow> world \<Rightarrow> world" where
  "emit e w = w\<lparr>trace := trace w @ [e]\<rparr>"

definition logf :: "level \<Rightarrow> string \<Rightarrow> world \<Rightarrow> world" where
  "logf l msg w = emit (Log l msg) w"

definition closed :: "world \<Rightarrow> conn \<Rightarrow> bool" where
  "closed w c = (Close c \<in> set (trace w))"

definition new_conn :: "world \<Rightarrow> conn \<times> world" where
  "new_conn w = (next_conn w, w\<lparr>next_conn := Suc (next_conn w)\<rparr>)"

text \<open>How a function of the package ends.\<close>

datatype outcome =
    Returned world
  | Blocked world
  | Panic world
  | Exit world

fun world_of :: "outcome \<Rightarrow> world" where
  "world_of (Returned w) = w"
| "world_of (Blocked w) = w"
| "world_of (Panic w) = w"
| "world_of (Exit w) = w"

text \<open>Kinds of events, to count them in a trace.\<close>

fun is_dial_relay :: "event \<Rightarrow> bool" where
  "is_dial_relay (DialRelay addr r) = True"
| "is_dial_relay e = False"

fun is_dial_local :: "event \<Rightarrow> bool" where
  "is_dial_local (DialLocal addr r) = True"
| "is_dial_local e = False"

fun is_listen :: "event \<Rightarrow> bool" where
  "is_listen (Listen net addr r) = True"
| "is_listen e = False"

fun is_accept :: "event \<Rightarrow> bool" where
  "is_accept (Accept r) = True"
| "is_accept e = False"

fun is_splice :: "event \<Rightarrow> bool" where
  "is_splice (Splice a b) = True"
| "is_splice e = False"

fun is_spawn :: "event \<Rightarrow> bool" where
  "is_spawn (Spawn a b) = True"
| "is_spawn e = False"

fun bind_failed :: "event \<Rightarrow> bool" where
  "bind_failed (MkdirAll path (Some err)) = True"
| "bind_failed (Listen net addr (Some err)) = True"
| "bind_failed e = False"

definition count_ev :: "(event \<Rightarrow> bool) \<Rightarrow> world \<Rightarrow> nat" where
  "count_ev P w = length (filter P (trace w))"

text \<open>A kind of event that a running session never produces.\<close>

definition quiet :: "(event \<Rightarrow> bool) \<Rightarrow> bool" where
  "quiet P =
     ((\<forall>c p r. \<not> P (Write c p r)) \<and> (\<forall>c. \<not> P (Close c)) \<and> (\<forall>l m. \<not> P (Log l m))
      \<and> (\<forall>a b r. \<not> P (Copied a b r)))"

subsection \<open>The calls into net, os, io and strings\<close>

definition closed_error :: error where
  "closed_error = OpError ''use of closed network connection''"

text \<open>
  \<^verbatim>\<open>conn.Write(p)\<close>: on a connection this process has closed it fails with the closed
  error; otherwise the network decides (\<open>res\<close>).
\<close>

definition conn_Write :: "conn \<Rightarrow> string \<Rightarrow> error option \<Rightarrow> world \<Rightarrow> error option \<times> world" where
  "conn_Write c p res w =
     (let r = (if closed w c then Some closed_error else res)
      in (r, emit (Write c p r) w))"

definition conn_Close :: "conn \<Rightarrow> world \<Rightarrow> world" where
  "conn_Close c w = emit (Close c) w"

text \<open>
  \<^verbatim>\<open>io.Copy(dst, src)\<close> reads \<open>src\<close> until end of stream or error. Reading a connection
  this process has closed fails at once, with the error \<open>cerr\<close>: the closed error as
  it is, or, where the copy goes through \<^verbatim>\<open>ReadFrom\<close> or \<^verbatim>\<open>WriteTo\<close> of a TCP
  connection, another \<^verbatim>\<open>*net.OpError\<close> around it, whose inner message is longer.
  Otherwise the network decides whether the copy ever ends (\<open>None\<close>: it does not) and
  with which error. \<open>None\<close> as a result means the call has not returned.
\<close>

definition io_Copy :: "conn \<Rightarrow> conn \<Rightarrow> error \<Rightarrow> error option option \<Rightarrow> world \<Rightarrow> (error option \<times> world) option" where
  "io_Copy dst src cerr res w =
     (let r = (if closed w src then Some (Some cerr) else res)
      in case r of
           None \<Rightarrow> None
         | Some err \<Rightarrow> Some (err, emit (Copied src dst err) w))"

definition HasPrefix :: "string \<Rightarrow> string \<Rightarrow> bool" where
  "HasPrefix s p = (take (length p) s = p)"

fun Contains :: "string \<Rightarrow> string \<Rightarrow> bool" where
  "Contains [] sub = (sub = [])"
| "Contains (c # s) sub = (HasPrefix (c # s) sub \<or> Contains s sub)"

text \<open>
  \<^verbatim>\<open>filepath.Dir\<close> on a Unix path: drop the last element, then \<^verbatim>\<open>Clean\<close>.
  \<open>split_path\<close> cuts at every separator; \<open>clean_elems\<close> drops empty and \<open>.\<close>
  elements and resolves \<open>..\<close> against the elements kept so far (in reverse).
\<close>

fun split_path :: "string \<Rightarrow> string list" where
  "split_path [] = [[]]"
| "split_path (c # s) =
     (if c = CHR ''/'' then [] # split_path s
      else (case split_path s of [] \<Rightarrow> [[c]] | e # es \<Rightarrow> (c # e) # es))"

fun clean_elems :: "bool \<Rightarrow> string list \<Rightarrow> string list \<Rightarrow> string list" where
  "clean_elems rooted acc [] = rev acc"
| "clean_elems rooted acc (e # es) =
     (if e = [] \<or> e = ''.'' then clean_elems rooted acc es
      else if e = ''..'' then
        (case acc of
           a # acc' \<Rightarrow>
             (if a = ''..'' then clean_elems rooted (e # acc) es
              else clean_elems rooted acc' es)
         | [] \<Rightarrow>
             (if rooted then clean_elems rooted acc es
              else clean_elems rooted (e # acc) es))
      else clean_elems rooted (e # acc) es)"

fun join_path :: "string list \<Rightarrow> string" where
  "join_path [] = []"
| "join_path [e] = e"
| "join_path (e # es) = e @ ''/'' @ join_path es"

definition Clean :: "string \<Rightarrow> string" where
  "Clean path =
     (let rooted = HasPrefix path ''/'';
          out = (if rooted then ''/'' else []) @ join_path (clean_elems rooted [] (split_path path))
      in if out = [] then ''.'' else out)"

definition filepath_Dir :: "string \<Rightarrow> string" where
  "filepath_Dir path =
     Clean (rev (dropWhile (\<lambda>c. c \<noteq> CHR ''/'') (rev path)))"

text \<open>
  The file system is a table from paths to nodes; a node is found under the spelling of
  its path, so the table is meant to hold paths in their clean form (no trailing
  separator). Each call can also fail for a reason
  the table does not show (permissions, a full disk, a port in use): the \<open>fault\<close>
  argument, \<open>None\<close> when there is none.

  \<^verbatim>\<open>os.Remove\<close> deletes a file, a socket or an empty directory.
\<close>

definition os_Remove :: "string \<Rightarrow> error option \<Rightarrow> world \<Rightarrow> error option \<times> world" where
  "os_Remove path fault w =
     (let r =
        (case fault of
           Some e \<Rightarrow> Some e
         | None \<Rightarrow>
             (case map_of (files w) path of
                None \<Rightarrow> Some (ErrorString ''no such file or directory'')
              | Some Directory \<Rightarrow>
                  (if \<exists>q \<in> set (map fst (files w)). q \<noteq> path \<and> filepath_Dir q = path
                   then Some (ErrorString ''directory not empty'') else None)
              | Some _ \<Rightarrow> None));
          fs = (if r = None then filter (\<lambda>(q, k). q \<noteq> path) (files w) else files w)
      in (r, emit (Remove path r) (w\<lparr>files := fs\<rparr>)))"

text \<open>
  \<^verbatim>\<open>os.MkdirAll\<close> succeeds on an existing directory, fails on an existing node of
  another kind, and otherwise creates the directory (with its missing parents; a
  parent that cannot be created is a fault).
\<close>

definition os_MkdirAll :: "string \<Rightarrow> error option \<Rightarrow> world \<Rightarrow> error option \<times> world" where
  "os_MkdirAll path fault w =
     (let r =
        (case fault of
           Some e \<Rightarrow> Some e
         | None \<Rightarrow>
             (case map_of (files w) path of
                None \<Rightarrow> None
              | Some Directory \<Rightarrow> None
              | Some _ \<Rightarrow> Some (ErrorString ''not a directory'')));
          fs = (if r = None \<and> map_of (files w) path = None
                then (path, Directory) # files w else files w)
      in (r, emit (MkdirAll path r) (w\<lparr>files := fs\<rparr>)))"

text \<open>
  \<^verbatim>\<open>net.Listen("unix", path)\<close> binds a new socket file: the path must be free
  (else \<^verbatim>\<open>EADDRINUSE\<close>) and its directory must exist.
\<close>

definition addr_in_use :: error where
  "addr_in_use = OpError ''bind: address already in use''"

definition net_Listen_unix :: "string \<Rightarrow> error option \<Rightarrow> world \<Rightarrow> error option \<times> world" where
  "net_Listen_unix path fault w =
     (let r =
        (case fault of
           Some e \<Rightarrow> Some e
         | None \<Rightarrow>
             (if map_of (files w) path \<noteq> None then Some addr_in_use
              else if map_of (files w) (filepath_Dir path) \<noteq> Some Directory
              then Some (OpError ''bind: no such file or directory'')
              else None));
          fs = (if r = None then (path, SocketFile) # files w else files w)
      in (r, emit (Listen ''unix'' path r) (w\<lparr>files := fs\<rparr>)))"

text \<open>\<^verbatim>\<open>net.Listen("tcp", addr)\<close>: the network stack decides.\<close>

definition net_Listen_tcp :: "string \<Rightarrow> error option \<Rightarrow> world \<Rightarrow> error option \<times> world" where
  "net_Listen_tcp addr fault w = (fault, emit (Listen ''tcp'' addr fault) w)"


text \<open>
  \<^verbatim>\<open>net.DialTimeout("tcp", addr, d)\<close>: the network decides; a successful dial gives a
  new connection. The address \<^verbatim>\<open>connectToServer\<close> passes always holds the colon it
  puts between host and port.
\<close>

definition net_DialTimeout :: "string \<Rightarrow> error option \<Rightarrow> world \<Rightarrow> (error + conn) \<times> world" where
  "net_DialTimeout addr res w =
     (case res of
        Some err \<Rightarrow> (Inl err, emit (DialRelay addr res) w)
      | None \<Rightarrow> (let (c, w') = new_conn w in (Inr c, emit (DialRelay addr res) w')))"

text \<open>
  \<^verbatim>\<open>net.Dial("tcp", addr)\<close> first splits the address into host and port. An address
  without a colon has no port: the call fails with "missing port in address" before
  anything is sent. For the other addresses the network decides (which covers the
  remaining malformed ones).
\<close>

definition missing_port :: "string \<Rightarrow> error" where
  "missing_port addr = OpError (''address '' @ addr @ '': missing port in address'')"

definition net_Dial :: "string \<Rightarrow> error option \<Rightarrow> world \<Rightarrow> (error + conn) \<times> world" where
  "net_Dial addr res w =
     (let r = (if \<not> Contains addr '':'' then Some (missing_port addr) else res)
      in case r of
           Some err \<Rightarrow> (Inl err, emit (DialLocal addr r) w)
         | None \<Rightarrow> (let (c, w') = new_conn w in (Inr c, emit (DialLocal addr r) w')))"

subsection \<open>isClosedError, isConnectionOpen\<close>

definition isClosedError :: "error option \<Rightarrow> bool" where
  "isClosedError err =
     (case err of
        None \<Rightarrow> False
      | Some (OpError m) \<Rightarrow>
          m = ''use of closed network connection'' \<or> m = ''connection reset by peer''
      | Some _ \<Rightarrow> False)"

definition nil_conn_error :: error where
  "nil_conn_error = ErrorString ''connection is nil''"

definition isConnectionOpen :: "conn option \<Rightarrow> error option \<Rightarrow> world \<Rightarrow> (bool \<times> error option) \<times> world" where
  "isConnectionOpen conn res w =
     (case conn of
        None \<Rightarrow> ((False, Some nil_conn_error), w)
      | Some c \<Rightarrow>
          (case conn_Write c [] res w of
             (Some err, w') \<Rightarrow> ((False, Some err), w')
           | (None, w') \<Rightarrow> ((True, None), w')))"

subsection \<open>startProxy\<close>

text \<open>
  What the network does to one session: the result of the zero-length write on each
  connection, whether and how each \<^verbatim>\<open>io.Copy\<close> ends by itself, and the error an
  \<^verbatim>\<open>io.Copy\<close> returns once its source has been closed by this process.
\<close>

record proxy_env =
  probe_a :: "error option"
  probe_b :: "error option"
  copy_ab :: "error option option"
  copy_ba :: "error option option"
  copy_closed :: error

text \<open>
  Each of the two goroutines is at its probe, in its copy, or done (\<^verbatim>\<open>wg.Done\<close>
  has run). \<open>once\<close> is the state of the \<^verbatim>\<open>sync.OnceFunc\<close>. A goroutine moves in
  two steps, each taken as a whole: the probe; then the return of \<^verbatim>\<open>io.Copy\<close> with
  the log call and \<^verbatim>\<open>closeOnce\<close> that follow it. The steps of the two goroutines
  interleave in any order.
\<close>

datatype pc = AtProbe | AtCopy | AtDone

record proxy_state =
  pc1 :: pc
  pc2 :: pc
  once :: bool
  pw :: world

definition closeOnce :: "conn \<Rightarrow> conn \<Rightarrow> proxy_state \<Rightarrow> proxy_state" where
  "closeOnce a b st =
     (if once st then st
      else st\<lparr>once := True, pw := conn_Close b (conn_Close a (pw st))\<rparr>)"

text \<open>One step of the goroutine that copies from \<open>a\<close> to \<open>b\<close>. A blocked copy does not move.\<close>

definition step1 :: "proxy_env \<Rightarrow> conn \<Rightarrow> conn \<Rightarrow> proxy_state \<Rightarrow> proxy_state" where
  "step1 env a b st =
     (case pc1 st of
        AtProbe \<Rightarrow>
          (case isConnectionOpen (Some a) (probe_a env) (pw st) of
             ((ok, _), w') \<Rightarrow>
               if \<not> ok then st\<lparr>pw := logf Debug ''A already closed, not starting A->B'' w', pc1 := AtDone\<rparr>
               else st\<lparr>pw := w', pc1 := AtCopy\<rparr>)
      | AtCopy \<Rightarrow>
          (case io_Copy b a (copy_closed env) (copy_ab env) (pw st) of
             None \<Rightarrow> st
           | Some (err, w') \<Rightarrow>
               (let w'' = (if err \<noteq> None \<and> \<not> isClosedError err
                           then logf Error ''A->B error'' w' else w')
                in (closeOnce a b (st\<lparr>pw := w''\<rparr>))\<lparr>pc1 := AtDone\<rparr>))
      | AtDone \<Rightarrow> st)"

text \<open>One step of the goroutine that copies from \<open>b\<close> to \<open>a\<close>.\<close>

definition step2 :: "proxy_env \<Rightarrow> conn \<Rightarrow> conn \<Rightarrow> proxy_state \<Rightarrow> proxy_state" where
  "step2 env a b st =
     (case pc2 st of
        AtProbe \<Rightarrow>
          (case isConnectionOpen (Some b) (probe_b env) (pw st) of
             ((ok, _), w') \<Rightarrow>
               if \<not> ok then st\<lparr>pw := logf Debug ''B already closed, not starting B->A'' w', pc2 := AtDone\<rparr>
               else st\<lparr>pw := w', pc2 := AtCopy\<rparr>)
      | AtCopy \<Rightarrow>
          (case io_Copy a b (copy_closed env) (copy_ba env) (pw st) of
             None \<Rightarrow> st
           | Some (err, w') \<Rightarrow>
               (let w'' = (if err \<noteq> None \<and> \<not> isClosedError err
                           then logf Error ''B->A error'' w' else w')
                in (closeOnce a b (st\<lparr>pw := w''\<rparr>))\<lparr>pc2 := AtDone\<rparr>))
      | AtDone \<Rightarrow> st)"

text \<open>
  The scheduler's choices: \<open>True\<close> lets the first goroutine take a step, \<open>False\<close> the
  second. The schedule is finite; where it ends with a goroutine not done,
  \<^verbatim>\<open>wg.Wait\<close> has not returned.
\<close>

fun run_proxy :: "proxy_env \<Rightarrow> conn \<Rightarrow> conn \<Rightarrow> bool list \<Rightarrow> proxy_state \<Rightarrow> proxy_state" where
  "run_proxy env a b [] st = st"
| "run_proxy env a b (g # gs) st =
     run_proxy env a b gs (if g then step1 env a b st else step2 env a b st)"

text \<open>
  The first statement calls \<^verbatim>\<open>a.RemoteAddr()\<close> and \<^verbatim>\<open>b.RemoteAddr()\<close>: on a nil
  interface value that is a nil dereference, a panic.
\<close>

definition startProxy :: "proxy_env \<Rightarrow> bool list \<Rightarrow> conn option \<Rightarrow> conn option \<Rightarrow> world \<Rightarrow> outcome" where
  "startProxy env sched a b w =
     (case (a, b) of
        (Some x, Some y) \<Rightarrow>
          (let w0 = logf Info ''proxying started'' (emit (Splice x y) w);
               st = run_proxy env x y sched \<lparr>pc1 = AtProbe, pc2 = AtProbe, once = False, pw = w0\<rparr>
           in if pc1 st = AtDone \<and> pc2 st = AtDone
              then Returned (logf Info ''proxying finished'' (pw st))
              else Blocked (pw st))
      | _ \<Rightarrow> Panic w)"

text \<open>
  What holds of a session at every moment: once the \<^verbatim>\<open>OnceFunc\<close> has run, both
  connections are closed; and a goroutine that is done has either been through
  \<^verbatim>\<open>closeOnce\<close> or has seen its zero-length write fail.
\<close>

definition probe_failed :: "world \<Rightarrow> conn \<Rightarrow> bool" where
  "probe_failed w c = (\<exists>e. Write c [] (Some e) \<in> set (trace w))"

definition proxy_inv :: "conn \<Rightarrow> conn \<Rightarrow> proxy_state \<Rightarrow> bool" where
  "proxy_inv a b st =
     ((once st \<longrightarrow> closed (pw st) a \<and> closed (pw st) b)
      \<and> (pc1 st = AtDone \<longrightarrow> once st \<or> probe_failed (pw st) a)
      \<and> (pc2 st = AtDone \<longrightarrow> once st \<or> probe_failed (pw st) b))"

subsection \<open>connectToServer\<close>

record relay_env =
  dial_result :: "error option"
  hs_write_result :: "error option"

definition newline :: string where
  "newline = [CHR 0x0A]"

definition connectToServer :: "config \<Rightarrow> string \<Rightarrow> relay_env \<Rightarrow> world \<Rightarrow> (error + conn) \<times> world" where
  "connectToServer cfg hs env w =
     (let serverFullAddr = serverAddr cfg @ '':'' @ serverPort cfg
      in case net_DialTimeout serverFullAddr (dial_result env) w of
           (Inl err, w1) \<Rightarrow> (Inl err, logf Error ''error connecting to server'' w1)
         | (Inr conn, w1) \<Rightarrow>
             (case conn_Write conn (hs @ newline) (hs_write_result env) w1 of
                (Some err, w2) \<Rightarrow>
                  (Inl err, conn_Close conn (logf Error ''error sending handshake'' w2))
              | (None, w2) \<Rightarrow> (Inr conn, w2)))"

text \<open>
  The result of the handshake write as \<^verbatim>\<open>connectToServer\<close> sees it: that of
  \<open>conn_Write\<close> on the connection the dial has just made.
\<close>

definition hs_result :: "relay_env \<Rightarrow> world \<Rightarrow> error option" where
  "hs_result env w = (if closed w (next_conn w) then Some closed_error else hs_write_result env)"

text \<open>\<^verbatim>\<open>connectToServer\<close> returns a connection when the dial and the handshake write succeed.\<close>

definition relay_connects :: "relay_env \<Rightarrow> world \<Rightarrow> bool" where
  "relay_connects env w = (dial_result env = None \<and> hs_result env w = None)"

subsection \<open>The listeners\<close>

text \<open>
  What one turn of an accept loop meets: \<^verbatim>\<open>Accept\<close> fails, or it returns a new local
  connection, for which the relay then behaves as the \<open>relay_env\<close> says.
\<close>

datatype accept_event = AcceptFails error | Accepted relay_env

record tunnel_env =
  remove_fault :: "error option"
  mkdir_fault :: "error option"
  listen_fault :: "error option"
  accepts :: "accept_event list"
  relay :: relay_env
  local_dial :: "error option"
  proxy :: proxy_env
  sched :: "bool list"

text \<open>
  The body of the \<^verbatim>\<open>for\<close> loop of \<^verbatim>\<open>handleUnixSocket\<close>. Every path through it ends in
  \<^verbatim>\<open>continue\<close> or at the end of the body; \<^verbatim>\<open>go startProxy\<close> starts the session in a
  goroutine of its own and does not wait for it.
\<close>

definition unix_iteration :: "config \<Rightarrow> Tunnel \<Rightarrow> accept_event \<Rightarrow> world \<Rightarrow> world" where
  "unix_iteration cfg t ev w =
     (case ev of
        AcceptFails err \<Rightarrow>
          logf Error ''error accepting connection on Unix socket'' (emit (Accept (Inl err)) w)
      | Accepted renv \<Rightarrow>
          (let (localConn, w0) = new_conn w;
               w1 = logf Info ''new connection on Unix socket'' (emit (Accept (Inr localConn)) w0)
           in case connectToServer cfg (handshake t) renv w1 of
                (Inl err, w2) \<Rightarrow>
                  conn_Close localConn (logf Error ''could not connect to server'' w2)
              | (Inr serverConn, w2) \<Rightarrow> emit (Spawn localConn serverConn) w2))"

fun unix_accept_loop :: "config \<Rightarrow> Tunnel \<Rightarrow> accept_event list \<Rightarrow> world \<Rightarrow> world" where
  "unix_accept_loop cfg t [] w = w"
| "unix_accept_loop cfg t (ev # evs) w = unix_accept_loop cfg t evs (unix_iteration cfg t ev w)"

text \<open>
  \<^verbatim>\<open>log.Fatal\<close> ends the process. Once the listener is bound the function is in its
  loop for ever: after the accepts the environment delivers, it is blocked in
  \<^verbatim>\<open>Accept\<close>. The deferred \<^verbatim>\<open>listener.Close\<close> never runs.
\<close>

definition handleUnixSocket :: "config \<Rightarrow> Tunnel \<Rightarrow> tunnel_env \<Rightarrow> world \<Rightarrow> outcome" where
  "handleUnixSocket cfg t env w =
     (let socketPath = localAddr t;
          w1 = snd (os_Remove socketPath (remove_fault env) w)
      in case os_MkdirAll (filepath_Dir socketPath) (mkdir_fault env) w1 of
           (Some err, w2) \<Rightarrow> Exit (logf Fatal ''could not create directory for socket'' w2)
         | (None, w2) \<Rightarrow>
             (case net_Listen_unix socketPath (listen_fault env) w2 of
                (Some err, w3) \<Rightarrow> Exit (logf Fatal ''could not create Unix socket'' w3)
              | (None, w3) \<Rightarrow>
                  Blocked (unix_accept_loop cfg t (accepts env)
                             (logf Info ''Unix socket created and listening'' w3))))"

definition tcp_iteration :: "config \<Rightarrow> Tunnel \<Rightarrow> accept_event \<Rightarrow> world \<Rightarrow> world" where
  "tcp_iteration cfg t ev w =
     (case ev of
        AcceptFails err \<Rightarrow>
          logf Error ''error accepting connection on TCP port'' (emit (Accept (Inl err)) w)
      | Accepted renv \<Rightarrow>
          (let (localConn, w0) = new_conn w;
               w1 = logf Info ''new connection on TCP port'' (emit (Accept (Inr localConn)) w0)
           in case connectToServer cfg (handshake t) renv w1 of
                (Inl err, w2) \<Rightarrow>
                  conn_Close localConn (logf Error ''could not connect to server'' w2)
              | (Inr serverConn, w2) \<Rightarrow> emit (Spawn localConn serverConn) w2))"

fun tcp_accept_loop :: "config \<Rightarrow> Tunnel \<Rightarrow> accept_event list \<Rightarrow> world \<Rightarrow> world" where
  "tcp_accept_loop cfg t [] w = w"
| "tcp_accept_loop cfg t (ev # evs) w = tcp_accept_loop cfg t evs (tcp_iteration cfg t ev w)"

definition handleTCPListener :: "config \<Rightarrow> Tunnel \<Rightarrow> tunnel_env \<Rightarrow> world \<Rightarrow> outcome" where
  "handleTCPListener cfg t env w =
     (let tcpAddr = localAddr t
      in case net_Listen_tcp tcpAddr (listen_fault env) w of
           (Some err, w1) \<Rightarrow> Exit (logf Fatal ''could not create TCP listener'' w1)
         | (None, w1) \<Rightarrow>
             Blocked (tcp_accept_loop cfg t (accepts env)
                        (logf Info ''TCP listener created and listening'' w1)))"

subsection \<open>runTunnel\<close>

definition runTunnel :: "config \<Rightarrow> Tunnel \<Rightarrow> tunnel_env \<Rightarrow> world \<Rightarrow> outcome" where
  "runTunnel cfg t env w =
     (let w0 = logf Info ''starting tunnel'' w
      in if HasPrefix (localAddr t) ''/'' then handleUnixSocket cfg t env w0
         else if Contains (localAddr t) '':'' then handleTCPListener cfg t env w0
         else
           (case connectToServer cfg (handshake t) (relay env) w0 of
              (Inl err, w1) \<Rightarrow> Returned (logf Error ''could not connect to server'' w1)
            | (Inr serverConn, w1) \<Rightarrow>
                (case net_Dial (localAddr t) (local_dial env) w1 of
                   (Inl err, w2) \<Rightarrow>
                     Returned (conn_Close serverConn
                                 (logf Error ''error connecting to local resource'' w2))
                 | (Inr localConn, w2) \<Rightarrow>
                     startProxy (proxy env) (sched env) (Some localConn) (Some serverConn) w2)))"


section \<open>Concrete inputs\<close>

text \<open>
  A stand-in for AES-GCM that can be run: sealing reverses the plaintext, opening
  reverses it back. It is used only to show that the hypotheses below can be met.
\<close>

definition toy_seal :: "string \<Rightarrow> string \<Rightarrow> string \<Rightarrow> string \<Rightarrow> string" where
  "toy_seal key nonce plaintext ad = rev plaintext"

definition toy_open :: "string \<Rightarrow> string \<Rightarrow> string \<Rightarrow> string \<Rightarrow> string option" where
  "toy_open key nonce ciphertext ad = Some (rev ciphertext)"

definition env_key32 :: crypto_env where
  "env_key32 =
     \<lparr>HANDSHAKE_SECRET = ''0123456789abcdef0123456789abcdef'',
      rand_Reader = Inr ''NONCE-NONCE-NONCE'',
      gcm_seal = toy_seal\<rparr>"

definition env_key6 :: crypto_env where
  "env_key6 =
     \<lparr>HANDSHAKE_SECRET = ''secret'',
      rand_Reader = Inr ''NONCE-NONCE-NONCE'',
      gcm_seal = toy_seal\<rparr>"

text \<open>A relay configuration, tunnels of the three kinds, and an empty world.\<close>

definition cfg0 :: config where
  "cfg0 = \<lparr>serverAddr = ''relay.example'', serverPort = ''27015'', serverSocket = ''/var/run/usbmuxd''\<rparr>"

definition t_unix :: Tunnel where
  "t_unix = \<lparr>localAddr = ''/var/run/usbmuxd'', handshake = ''usbmuxd''\<rparr>"

definition t_tcp :: Tunnel where
  "t_tcp = \<lparr>localAddr = ''127.0.0.1:7777'', handshake = ''forward''\<rparr>"

definition t_direct :: Tunnel where
  "t_direct = \<lparr>localAddr = ''localhost'', handshake = ''forward''\<rparr>"

definition w0 :: world where
  "w0 = \<lparr>trace = [], next_conn = 0, files = []\<rparr>"

text \<open>
  A world in which a local connection (0) has been accepted and the relay connection
  (1) dialled, as the accept loops have it when they start a session.
\<close>

definition w_pair :: world where
  "w_pair =
     \<lparr>trace = [Accept (Inr 0), DialRelay ''relay.example:27015'' None,
               Write 1 (''usbmuxd'' @ [CHR 0x0A]) None],
      next_conn = 2, files = []\<rparr>"

text \<open>A world where an earlier run has left its socket file behind.\<close>

definition w_stale :: world where
  "w_stale =
     \<lparr>trace = [], next_conn = 0,
      files = [(''/var/run'', Directory), (''/var/run/usbmuxd'', SocketFile)]\<rparr>"

text \<open>The relay accepts the handshake; it breaks during the handshake; it refuses the dial.\<close>

definition relay_ok :: relay_env where
  "relay_ok = \<lparr>dial_result = None, hs_write_result = None\<rparr>"

definition relay_write_fails :: relay_env where
  "relay_write_fails = \<lparr>dial_result = None, hs_write_result = Some (OpError ''broken pipe'')\<rparr>"

definition relay_refused :: relay_env where
  "relay_refused = \<lparr>dial_result = Some (OpError ''connection refused''), hs_write_result = None\<rparr>"

text \<open>
  Sessions: both peers have reset their connections before the session starts, so that
  both zero-length writes fail; and a session where the local peer ends its stream.
\<close>

definition proxy_both_reset :: proxy_env where
  "proxy_both_reset =
     \<lparr>probe_a = Some (OpError ''connection reset by peer''),
      probe_b = Some (OpError ''connection reset by peer''),
      copy_ab = None, copy_ba = None,
      copy_closed = OpError ''read tcp: use of closed network connection''\<rparr>"

definition proxy_a_ends :: proxy_env where
  "proxy_a_ends =
     \<lparr>probe_a = None, probe_b = None, copy_ab = Some None, copy_ba = None,
      copy_closed = OpError ''read tcp: use of closed network connection''\<rparr>"

definition tenv0 :: tunnel_env where
  "tenv0 =
     \<lparr>remove_fault = None, mkdir_fault = None, listen_fault = None,
      accepts = [AcceptFails (OpError ''too many open files''), Accepted relay_refused,
                 Accepted relay_ok],
      relay = relay_ok, local_dial = None, proxy = proxy_a_ends,
      sched = [True, False, True, False]\<rparr>"

definition tenv_bind_fails :: tunnel_env where
  "tenv_bind_fails = tenv0\<lparr>listen_fault := Some (OpError ''bind: permission denied'')\<rparr>"

text \<open>
  The listeners after one failed accept: the worlds in which the handlers then wait,
  over the stale socket file and over the empty world.
\<close>

definition evs0 :: "accept_event list" where
  "evs0 = [AcceptFails (OpError ''too many open files'')]"

definition wu_bound :: world where
  "wu_bound = world_of (handleUnixSocket cfg0 t_unix (tenv0\<lparr>accepts := evs0\<rparr>) w_stale)"

definition wt_bound :: world where
  "wt_bound = world_of (handleTCPListener cfg0 t_tcp (tenv0\<lparr>accepts := evs0\<rparr>) w0)"

section \<open>Properties of the handshake encryption\<close>

subsection \<open>Base64: decoding what was encoded\<close>

lemma encodeStd_length: "length encodeStd = 64"
  by (simp add: encodeStd_def)

lemma encodeStd_distinct: "distinct encodeStd"
  by (simp add: encodeStd_def)

lemma pad_notin: "CHR ''='' \<notin> set encodeStd"
  by (simp add: encodeStd_def)

lemma index_of_nth: "distinct xs \<Longrightarrow> i < length xs \<Longrightarrow> index_of (xs ! i) xs = Some i"
proof (induction xs arbitrary: i)
  case Nil
  then show ?case by simp
next
  case (Cons x xs)
  show ?case
  proof (cases i)
    case 0
    then show ?thesis by simp
  next
    case (Suc j)
    with Cons.prems have "xs ! j \<noteq> x" "j < length xs" "distinct xs" by auto
    with Cons.IH[of j] Suc show ?thesis by simp
  qed
qed

lemma dec6_enc6: "dec6 (enc6 v) = Some (v mod 64)"
  unfolding dec6_def enc6_def
  by (rule index_of_nth) (simp_all add: encodeStd_distinct encodeStd_length)

lemma enc6_not_pad: "enc6 v \<noteq> CHR ''=''"
proof -
  have "enc6 v \<in> set encodeStd"
    unfolding enc6_def by (rule nth_mem) (simp add: encodeStd_length)
  with pad_notin show ?thesis by auto
qed


lemma sextets:
  assumes "v < 16777216"
  shows "(v div 262144) mod 64 * 262144 + (v div 4096) mod 64 * 4096 + (v div 64) mod 64 * 64 + v mod 64 = (v::nat)"
proof -
  define w1 where "w1 = v div 64"
  define w2 where "w2 = w1 div 64"
  define w3 where "w3 = w2 div 64"
  have d2: "v div 4096 = w2" unfolding w2_def w1_def by (simp add: div_mult2_eq)
  have d3: "v div 262144 = w3" unfolding w3_def w2_def w1_def by (simp add: div_mult2_eq)
  have e0: "v = w1 * 64 + v mod 64" unfolding w1_def by simp
  have e1: "w1 = w2 * 64 + w1 mod 64" unfolding w2_def by simp
  have e2: "w2 = w3 * 64 + w2 mod 64" unfolding w3_def by simp
  have "w3 < 64" using assms unfolding d3[symmetric] by simp
  then have e3: "w3 mod 64 = w3" by simp
  show ?thesis
    unfolding d2 d3 e3 w1_def[symmetric] using e0 e1 e2 by linarith
qed

lemma div_mod_256:
  assumes "c < (256::nat)"
  shows "(k * 256 + c) div 256 = k" and "(k * 256 + c) mod 256 = c"
  using assms by simp_all

lemma bytes3:
  assumes "a < 256" "b < 256" "c < 256"
  shows "(a * 65536 + b * 256 + c) div 65536 = (a::nat)"
    and "((a * 65536 + b * 256 + c) div 256) mod 256 = b"
    and "(a * 65536 + b * 256 + c) mod 256 = c"
    and "a * 65536 + b * 256 + c < 16777216"
proof -
  have r: "a * 65536 + b * 256 + c = (a * 256 + b) * 256 + c" by simp
  note d = div_mod_256(1)[OF assms(3), of "a * 256 + b"]
  note m = div_mod_256(2)[OF assms(2), of a]
  note m2 = div_mod_256(2)[OF assms(3), of "a * 256 + b"]
  show "(a * 65536 + b * 256 + c) div 65536 = a" using assms by simp
  show "((a * 65536 + b * 256 + c) div 256) mod 256 = b"
    by (simp only: r d m)
  show "(a * 65536 + b * 256 + c) mod 256 = c"
    by (simp only: r m2)
  show "a * 65536 + b * 256 + c < 16777216" using assms by simp
qed

lemma group3:
  fixes a b c :: char
  defines "val \<equiv> of_char a * 65536 + of_char b * 256 + (of_char c :: nat)"
  shows "DecodeString (enc6 (val div 262144) # enc6 (val div 4096) # enc6 (val div 64) # enc6 val # rest)
         = map_option (\<lambda>bs. a # b # c # bs) (DecodeString rest)"
proof -
  have lt: "val < 16777216" unfolding val_def by (rule bytes3(4)) simp_all
  have s: "val div 262144 mod 64 * 262144 + val div 4096 mod 64 * 4096 + val div 64 mod 64 * 64 + val mod 64 = val"
    by (rule sextets[OF lt])
  have b0: "char_of (val div 65536) = a"
    unfolding val_def by (subst bytes3(1)) simp_all
  have "char_of (val div 256) = char_of ((val div 256) mod 256)" by simp
  also have "(val div 256) mod 256 = of_char b"
    unfolding val_def by (rule bytes3(2)) simp_all
  finally have b1: "char_of (val div 256) = b" by simp
  have "char_of val = char_of (val mod 256)" by simp
  also have "val mod 256 = of_char c"
    unfolding val_def by (rule bytes3(3)) simp_all
  finally have b2: "char_of val = c" by simp
  show ?thesis
    by (simp add: dec6_enc6 enc6_not_pad s b0 b1 b2 del: char_of_mod_256)
qed


lemma group1:
  fixes a :: char
  defines "val \<equiv> (of_char a :: nat) * 65536"
  shows "DecodeString [enc6 (val div 262144), enc6 (val div 4096), CHR ''='', CHR ''=''] = Some [a]"
proof -
  have lt: "val < 16777216" unfolding val_def using bytes3(4)[of "of_char a" 0 0] by simp
  have z1: "val div 64 mod 64 = 0" unfolding val_def by simp
  have z0: "val mod 64 = 0" unfolding val_def by simp
  have s: "val div 262144 mod 64 * 262144 + val div 4096 mod 64 * 4096 = val"
    using sextets[OF lt] by (simp only: z1 z0 mult_zero_left add_0_right)
  have b0: "char_of (val div 65536) = a" unfolding val_def by simp
  show ?thesis
    by (simp add: dec6_enc6 s b0)
qed

lemma group2:
  fixes a b :: char
  defines "val \<equiv> (of_char a :: nat) * 65536 + of_char b * 256"
  shows "DecodeString [enc6 (val div 262144), enc6 (val div 4096), enc6 (val div 64), CHR ''=''] = Some [a, b]"
proof -
  have v: "val = of_char a * 65536 + of_char b * 256 + 0" unfolding val_def by simp
  have lt: "val < 16777216" unfolding v by (rule bytes3(4)) simp_all
  have z0: "val mod 64 = 0" unfolding val_def by simp
  have s: "val div 262144 mod 64 * 262144 + val div 4096 mod 64 * 4096 + val div 64 mod 64 * 64 = val"
    using sextets[OF lt] by (simp only: z0 add_0_right)
  have b0: "char_of (val div 65536) = a"
    unfolding v by (subst bytes3(1)) simp_all
  have "char_of (val div 256) = char_of ((val div 256) mod 256)" by simp
  also have "(val div 256) mod 256 = of_char b"
    unfolding v by (rule bytes3(2)) simp_all
  finally have b1: "char_of (val div 256) = b" by simp
  show ?thesis
    by (simp add: dec6_enc6 enc6_not_pad s b0 b1 del: char_of_mod_256)
qed

lemma DecodeString_EncodeToString: "DecodeString (EncodeToString bs) = Some bs"
proof (induction bs rule: EncodeToString.induct)
  case 1
  show ?case by simp
next
  case (2 a)
  show ?case using group1[of a] by (simp add: Let_def)
next
  case (3 a b)
  show ?case using group2[of a b] by (simp add: Let_def)
next
  case (4 a b c rest)
  show ?case using group3[of a b c "EncodeToString rest"] 4 by (simp add: Let_def)
qed

subsection \<open>The key length check\<close>

text \<open>
  Claim C4. Whatever the plaintext, a key whose length is not 32 bytes makes
  \<^verbatim>\<open>EncryptHandshake\<close> return the key-length error, and the only thing it has done
  is the log call: no cipher was built, no randomness read, nothing sealed. With a key
  of exactly 32 bytes it goes on to build the cipher.
\<close>

theorem EncryptHandshake_key_length:
  "(length (HANDSHAKE_SECRET env) \<noteq> 32 \<longrightarrow>
      EncryptHandshake env plaintext = ([CLog Info (HANDSHAKE_SECRET env)], Inl InvalidKeyLength))
   \<and> (length (HANDSHAKE_SECRET env) = 32 \<longrightarrow>
      take 2 (fst (EncryptHandshake env plaintext)) = [CLog Info (HANDSHAKE_SECRET env), CNewCipher])"
  by (simp add: EncryptHandshake_def Let_def aes_NewCipher_def cipher_NewGCM_def
      split: sum.splits)

theorem EncryptHandshake_key_length_witness:
  "length (HANDSHAKE_SECRET env_key6) \<noteq> 32
   \<and> EncryptHandshake env_key6 ''usbmuxd'' = ([CLog Info ''secret''], Inl InvalidKeyLength)
   \<and> length (HANDSHAKE_SECRET env_key32) = 32
   \<and> take 2 (fst (EncryptHandshake env_key32 ''usbmuxd''))
       = [CLog Info ''0123456789abcdef0123456789abcdef'', CNewCipher]"
  using EncryptHandshake_key_length [of env_key6 "''usbmuxd''"]
        EncryptHandshake_key_length [of env_key32 "''usbmuxd''"]
  by (simp add: env_key6_def env_key32_def)

subsection \<open>What the returned blob contains\<close>

text \<open>
  Claim C5. With a key of 32 bytes and a random source that delivers the nonce,
  \<^verbatim>\<open>EncryptHandshake\<close> returns a blob; its Base64 decoding is the nonce followed by
  the sealed plaintext, so that opening the rest with the first \<open>NonceSize\<close> bytes as
  nonce and the same key gives the plaintext back. The AEAD is any pair of a sealing
  and an opening function where opening undoes sealing.
\<close>

theorem EncryptHandshake_roundtrip:
  assumes key: "length (HANDSHAKE_SECRET env) = 32"
    and rand: "rand_Reader env = Inr bs" "NonceSize \<le> length bs"
    and aead: "\<And>nonce p. gcm_open (HANDSHAKE_SECRET env) nonce
                 (gcm_seal env (HANDSHAKE_SECRET env) nonce p []) [] = Some p"
  shows "\<exists>blob raw. snd (EncryptHandshake env plaintext) = Inr blob
           \<and> DecodeString blob = Some raw
           \<and> take NonceSize raw = take NonceSize bs
           \<and> gcm_open (HANDSHAKE_SECRET env) (take NonceSize raw) (drop NonceSize raw) []
               = Some plaintext"
proof -
  let ?key = "HANDSHAKE_SECRET env"
  let ?nonce = "take NonceSize bs"
  let ?raw = "?nonce @ gcm_seal env ?key ?nonce plaintext []"
  have len: "length ?nonce = NonceSize" using rand(2) by simp
  have res: "snd (EncryptHandshake env plaintext) = Inr (EncodeToString ?raw)"
    using key rand
    by (simp add: EncryptHandshake_def Let_def aes_NewCipher_def cipher_NewGCM_def
        io_ReadFull_def Seal_def)
  have dec: "DecodeString (EncodeToString ?raw) = Some ?raw"
    by (rule DecodeString_EncodeToString)
  have t: "take NonceSize ?raw = ?nonce" using len by simp
  have d: "drop NonceSize ?raw = gcm_seal env ?key ?nonce plaintext []" using len by simp
  have "gcm_open ?key (take NonceSize ?raw) (drop NonceSize ?raw) [] = Some plaintext"
    unfolding t d by (rule aead)
  with res dec t show ?thesis by blast
qed

theorem EncryptHandshake_roundtrip_witness:
  "length (HANDSHAKE_SECRET env_key32) = 32
   \<and> rand_Reader env_key32 = Inr ''NONCE-NONCE-NONCE''
   \<and> NonceSize \<le> length ''NONCE-NONCE-NONCE''
   \<and> (\<forall>nonce p. toy_open (HANDSHAKE_SECRET env_key32) nonce
          (gcm_seal env_key32 (HANDSHAKE_SECRET env_key32) nonce p []) [] = Some p)
   \<and> (\<exists>blob raw. snd (EncryptHandshake env_key32 ''usbmuxd'') = Inr blob
           \<and> DecodeString blob = Some raw
           \<and> take NonceSize raw = take NonceSize ''NONCE-NONCE-NONCE''
           \<and> toy_open (HANDSHAKE_SECRET env_key32) (take NonceSize raw) (drop NonceSize raw) []
               = Some ''usbmuxd'')"
proof -
  have k: "length (HANDSHAKE_SECRET env_key32) = 32" by (simp add: env_key32_def)
  have r: "rand_Reader env_key32 = Inr ''NONCE-NONCE-NONCE''" by (simp add: env_key32_def)
  have n: "NonceSize \<le> length ''NONCE-NONCE-NONCE''" by (simp add: NonceSize_def)
  have a: "\<And>nonce p. toy_open (HANDSHAKE_SECRET env_key32) nonce
          (gcm_seal env_key32 (HANDSHAKE_SECRET env_key32) nonce p []) [] = Some p"
    by (simp add: env_key32_def toy_open_def toy_seal_def)
  from EncryptHandshake_roundtrip [of env_key32 "''NONCE-NONCE-NONCE''" toy_open "''usbmuxd''", OF k r n a]
  show ?thesis using k r n a by blast
qed

subsection \<open>The key in the log\<close>

text \<open>
  Claim C10. On every call, with a valid key or not, the first thing
  \<^verbatim>\<open>EncryptHandshake\<close> does is to log, at level info, the bytes of
  \<^verbatim>\<open>HANDSHAKE_SECRET\<close> as they are; the length check and the encryption come after.
\<close>

theorem EncryptHandshake_logs_key:
  "take 1 (fst (EncryptHandshake env plaintext)) = [CLog Info (HANDSHAKE_SECRET env)]"
  by (simp add: EncryptHandshake_def Let_def split: sum.splits)

section \<open>Properties of the tunnels\<close>

subsection \<open>Traces\<close>

lemma trace_emit: "trace (emit e w) = trace w @ [e]"
  and next_conn_emit: "next_conn (emit e w) = next_conn w"
  and files_emit: "files (emit e w) = files w"
  by (simp_all add: emit_def)

lemma closed_emit: "closed (emit e w) c \<longleftrightarrow> closed w c \<or> e = Close c"
  by (auto simp: closed_def emit_def)

subsection \<open>connectToServer\<close>

lemma connectToServer_dialled:
  assumes "dial_result env = None"
  shows "fst (connectToServer cfg hs env w)
           = (case hs_result env w of None \<Rightarrow> Inr (next_conn w) | Some err \<Rightarrow> Inl err)"
    and "trace (snd (connectToServer cfg hs env w))
           = trace w @ [DialRelay (serverAddr cfg @ '':'' @ serverPort cfg) None,
                        Write (next_conn w) (hs @ [CHR 0x0A]) (hs_result env w)]
             @ (case hs_result env w of None \<Rightarrow> []
                | Some err \<Rightarrow> [Log Error ''error sending handshake'', Close (next_conn w)])"
    and "next_conn (snd (connectToServer cfg hs env w)) = Suc (next_conn w)"
    and "files (snd (connectToServer cfg hs env w)) = files w"
  using assms
  by (simp_all add: connectToServer_def net_DialTimeout_def new_conn_def conn_Write_def
      conn_Close_def logf_def emit_def closed_def newline_def Let_def hs_result_def
      split: option.splits)

lemma connectToServer_refused:
  assumes "dial_result env = Some err"
  shows "fst (connectToServer cfg hs env w) = Inl err"
    and "trace (snd (connectToServer cfg hs env w))
           = trace w @ [DialRelay (serverAddr cfg @ '':'' @ serverPort cfg) (Some err),
                        Log Error ''error connecting to server'']"
    and "next_conn (snd (connectToServer cfg hs env w)) = next_conn w"
    and "files (snd (connectToServer cfg hs env w)) = files w"
  using assms
  by (simp_all add: connectToServer_def net_DialTimeout_def logf_def emit_def)

text \<open>
  Claim C2. When the dial succeeds, the first thing \<^verbatim>\<open>connectToServer\<close> does with the
  new connection is one write of the handshake token followed by the single byte
  \<open>0x0A\<close>; no other write on that connection comes before or after it, and the
  connection returned is the one dialled.
\<close>

theorem connectToServer_handshake_first:
  assumes "dial_result env = None"
  shows "\<exists>r rest.
           trace (snd (connectToServer cfg hs env w))
             = trace w @ DialRelay (serverAddr cfg @ '':'' @ serverPort cfg) None
                 # Write (next_conn w) (hs @ [CHR 0x0A]) r # rest
           \<and> (\<forall>p q. Write (next_conn w) p q \<notin> set rest)
           \<and> (\<forall>c. fst (connectToServer cfg hs env w) = Inr c \<longrightarrow> c = next_conn w)"
  by (auto simp: connectToServer_dialled[OF assms] split: option.splits)

theorem connectToServer_handshake_first_witness:
  "dial_result relay_ok = None
   \<and> (\<exists>r rest.
         trace (snd (connectToServer cfg0 ''usbmuxd'' relay_ok w0))
           = trace w0 @ DialRelay (serverAddr cfg0 @ '':'' @ serverPort cfg0) None
               # Write (next_conn w0) (''usbmuxd'' @ [CHR 0x0A]) r # rest
         \<and> (\<forall>p q. Write (next_conn w0) p q \<notin> set rest)
         \<and> (\<forall>c. fst (connectToServer cfg0 ''usbmuxd'' relay_ok w0) = Inr c \<longrightarrow> c = next_conn w0))"
proof -
  have d: "dial_result relay_ok = None" by (simp add: relay_ok_def)
  from connectToServer_handshake_first [OF d, of cfg0 "''usbmuxd''" w0] d
  show ?thesis by blast
qed

text \<open>
  Claim C3. When the dial succeeds and the handshake write fails,
  \<^verbatim>\<open>connectToServer\<close> returns an error and no connection, and it has closed the
  connection it dialled: the \<^verbatim>\<open>Close\<close> is the last thing it did.
\<close>

theorem connectToServer_write_failure:
  assumes "dial_result env = None" and "hs_write_result env = Some e"
  shows "(\<exists>err. fst (connectToServer cfg hs env w) = Inl err)
         \<and> closed (snd (connectToServer cfg hs env w)) (next_conn w)
         \<and> last (trace (snd (connectToServer cfg hs env w))) = Close (next_conn w)"
  using assms(2)
  by (auto simp: connectToServer_dialled[OF assms(1)] hs_result_def closed_def)

theorem connectToServer_write_failure_witness:
  "dial_result relay_write_fails = None
   \<and> hs_write_result relay_write_fails = Some (OpError ''broken pipe'')
   \<and> fst (connectToServer cfg0 ''usbmuxd'' relay_write_fails w0) = Inl (OpError ''broken pipe'')
   \<and> closed (snd (connectToServer cfg0 ''usbmuxd'' relay_write_fails w0)) (next_conn w0)
   \<and> last (trace (snd (connectToServer cfg0 ''usbmuxd'' relay_write_fails w0))) = Close (next_conn w0)"
proof -
  have d: "dial_result relay_write_fails = None" by (simp add: relay_write_fails_def)
  have h: "hs_write_result relay_write_fails = Some (OpError ''broken pipe'')"
    by (simp add: relay_write_fails_def)
  have v: "fst (connectToServer cfg0 ''usbmuxd'' relay_write_fails w0) = Inl (OpError ''broken pipe'')"
    by (simp add: connectToServer_dialled[OF d] hs_result_def h w0_def closed_def)
  from connectToServer_write_failure [OF d h, of cfg0 "''usbmuxd''" w0] d h v
  show ?thesis by blast
qed

subsection \<open>startProxy\<close>

text \<open>
  For every schedule and every behaviour of the network: when \<^verbatim>\<open>startProxy\<close> returns,
  both connections have been closed, unless both zero-length writes had failed.
\<close>

lemma step1_inv: "proxy_inv a b st \<Longrightarrow> proxy_inv a b (step1 env a b st)"
  by (auto simp: step1_def proxy_inv_def isConnectionOpen_def conn_Write_def io_Copy_def
      closeOnce_def logf_def conn_Close_def closed_def probe_failed_def emit_def Let_def
      split: pc.splits option.splits if_splits prod.splits)

lemma step2_inv: "proxy_inv a b st \<Longrightarrow> proxy_inv a b (step2 env a b st)"
  by (auto simp: step2_def proxy_inv_def isConnectionOpen_def conn_Write_def io_Copy_def
      closeOnce_def logf_def conn_Close_def closed_def probe_failed_def emit_def Let_def
      split: pc.splits option.splits if_splits prod.splits)

lemma run_proxy_inv: "proxy_inv a b st \<Longrightarrow> proxy_inv a b (run_proxy env a b sch st)"
  by (induction sch arbitrary: st) (simp_all add: step1_inv step2_inv)

lemma startProxy_returned:
  assumes "startProxy env sch (Some a) (Some b) w = Returned w'"
  shows "(closed w' a \<and> closed w' b) \<or> (probe_failed w' a \<and> probe_failed w' b)"
proof -
  let ?init = "\<lparr>pc1 = AtProbe, pc2 = AtProbe, once = False,
               pw = logf Info ''proxying started'' (emit (Splice a b) w)\<rparr>"
  let ?st = "run_proxy env a b sch ?init"
  have "proxy_inv a b ?init" by (simp add: proxy_inv_def)
  then have inv: "proxy_inv a b ?st" by (rule run_proxy_inv)
  from assms have fin: "pc1 ?st = AtDone" "pc2 ?st = AtDone"
    and w': "w' = logf Info ''proxying finished'' (pw ?st)"
    by (auto simp: startProxy_def Let_def split: if_splits)
  from inv fin have "(closed (pw ?st) a \<and> closed (pw ?st) b)
      \<or> (probe_failed (pw ?st) a \<and> probe_failed (pw ?st) b)"
    by (auto simp: proxy_inv_def)
  then show ?thesis
    unfolding w' by (auto simp: closed_def probe_failed_def logf_def emit_def)
qed

text \<open>
  Claim C1 says that both connections are closed whenever the session is over. The
  session below is over (\<^verbatim>\<open>startProxy\<close> has returned) with both connections still
  open: both peers had reset, both zero-length writes failed, each goroutine
  returned at its probe, and \<^verbatim>\<open>closeOnce\<close> was never called.
\<close>

theorem startProxy_both_probes_fail:
  "(case startProxy proxy_both_reset [True, False] (Some 0) (Some 1) w_pair of
      Returned w' \<Rightarrow> \<not> closed w' 0 \<and> \<not> closed w' 1
    | _ \<Rightarrow> False)"
  by (simp add: startProxy_def proxy_both_reset_def w_pair_def step1_def step2_def
      isConnectionOpen_def conn_Write_def closed_def emit_def logf_def Let_def)

lemma isConnectionOpen_nil_guard:
  "isConnectionOpen None res w = ((False, Some nil_conn_error), w)"
  by (simp add: isConnectionOpen_def)


subsection \<open>Counting events\<close>

lemma count_ev_emit: "count_ev P (emit e w) = count_ev P w + (if P e then 1 else 0)"
  by (simp add: count_ev_def emit_def)

lemma count_ev_trace: "trace w' = trace w @ es \<Longrightarrow> count_ev P w' = count_ev P w + length (filter P es)"
  by (simp add: count_ev_def)

lemma connectToServer_Inr:
  "fst (connectToServer cfg hs env w) = Inr c \<longleftrightarrow> relay_connects env w \<and> c = next_conn w"
proof (cases "dial_result env")
  case None
  then show ?thesis
    by (auto simp: connectToServer_dialled(1)[OF None] relay_connects_def split: option.splits)
next
  case (Some err)
  then show ?thesis
    by (simp add: connectToServer_refused(1)[OF Some] relay_connects_def)
qed

lemma quiet_simps:
  assumes "quiet P"
  shows "\<not> P (Write c p r)" "\<not> P (Close c)" "\<not> P (Log l m)" "\<not> P (Copied a b r')"
  using assms by (simp_all add: quiet_def)

lemma quiet_kinds:
  "quiet is_dial_relay" "quiet is_dial_local" "quiet is_listen" "quiet is_accept"
  "quiet is_splice" "quiet is_spawn"
  by (simp_all add: quiet_def)

lemma connectToServer_count:
  assumes "quiet P"
  shows "count_ev P (snd (connectToServer cfg hs env w))
           = count_ev P w + (if P (DialRelay (serverAddr cfg @ '':'' @ serverPort cfg) (dial_result env)) then 1 else 0)"
proof (cases "dial_result env")
  case None
  show ?thesis
    using quiet_simps[OF assms] None
    by (simp add: count_ev_trace[OF connectToServer_dialled(2)[OF None]] split: option.splits)
next
  case (Some err)
  show ?thesis
    using quiet_simps[OF assms] Some
    by (simp add: count_ev_trace[OF connectToServer_refused(2)[OF Some]])
qed

lemma conn_Write_count:
  "quiet P \<Longrightarrow> count_ev P (snd (conn_Write c p r w)) = count_ev P w"
  by (simp add: conn_Write_def Let_def count_ev_emit quiet_def)

lemma isConnectionOpen_count:
  "quiet P \<Longrightarrow> count_ev P (snd (isConnectionOpen (Some c) r w)) = count_ev P w"
  using conn_Write_count[of P c "[]" r w]
  by (auto simp: isConnectionOpen_def split: prod.splits option.splits)

lemma io_Copy_count:
  "quiet P \<Longrightarrow> io_Copy dst src ce r w = Some (err, w') \<Longrightarrow> count_ev P w' = count_ev P w"
  by (auto simp: io_Copy_def Let_def count_ev_emit quiet_def split: option.splits if_splits)

lemma logf_count: "quiet P \<Longrightarrow> count_ev P (logf l m w) = count_ev P w"
  by (simp add: logf_def count_ev_emit quiet_def)

lemma conn_Close_count: "quiet P \<Longrightarrow> count_ev P (conn_Close c w) = count_ev P w"
  by (simp add: conn_Close_def count_ev_emit quiet_def)

lemma closeOnce_count: "quiet P \<Longrightarrow> count_ev P (pw (closeOnce a b st)) = count_ev P (pw st)"
  by (simp add: closeOnce_def conn_Close_count)

lemma step1_count:
  assumes "quiet P"
  shows "count_ev P (pw (step1 env a b st)) = count_ev P (pw st)"
proof (cases "pc1 st")
  case AtProbe
  obtain ok e w' where p: "isConnectionOpen (Some a) (probe_a env) (pw st) = ((ok, e), w')"
    by (metis prod.exhaust)
  with isConnectionOpen_count[OF assms, of a "probe_a env" "pw st"]
  have "count_ev P w' = count_ev P (pw st)" by simp
  with AtProbe p show ?thesis
    by (simp add: step1_def logf_count[OF assms])
next
  case AtCopy
  show ?thesis
  proof (cases "io_Copy b a (copy_closed env) (copy_ab env) (pw st)")
    case None
    with AtCopy show ?thesis by (simp add: step1_def)
  next
    case (Some r)
    obtain err w' where r: "r = (err, w')" by (cases r)
    from io_Copy_count[OF assms Some[unfolded r]]
    have "count_ev P w' = count_ev P (pw st)" .
    with AtCopy Some r show ?thesis
      by (simp add: step1_def Let_def closeOnce_count[OF assms] logf_count[OF assms])
  qed
next
  case AtDone
  then show ?thesis by (simp add: step1_def)
qed

lemma step2_count:
  assumes "quiet P"
  shows "count_ev P (pw (step2 env a b st)) = count_ev P (pw st)"
proof (cases "pc2 st")
  case AtProbe
  obtain ok e w' where p: "isConnectionOpen (Some b) (probe_b env) (pw st) = ((ok, e), w')"
    by (metis prod.exhaust)
  with isConnectionOpen_count[OF assms, of b "probe_b env" "pw st"]
  have "count_ev P w' = count_ev P (pw st)" by simp
  with AtProbe p show ?thesis
    by (simp add: step2_def logf_count[OF assms])
next
  case AtCopy
  show ?thesis
  proof (cases "io_Copy a b (copy_closed env) (copy_ba env) (pw st)")
    case None
    with AtCopy show ?thesis by (simp add: step2_def)
  next
    case (Some r)
    obtain err w' where r: "r = (err, w')" by (cases r)
    from io_Copy_count[OF assms Some[unfolded r]]
    have "count_ev P w' = count_ev P (pw st)" .
    with AtCopy Some r show ?thesis
      by (simp add: step2_def Let_def closeOnce_count[OF assms] logf_count[OF assms])
  qed
next
  case AtDone
  then show ?thesis by (simp add: step2_def)
qed

lemma run_proxy_count:
  assumes "quiet P"
  shows "count_ev P (pw (run_proxy env a b sch st)) = count_ev P (pw st)"
proof (induction sch arbitrary: st)
  case Nil
  show ?case by simp
next
  case (Cons g gs)
  show ?case
    by (simp add: Cons.IH step1_count[OF assms] step2_count[OF assms])
qed

lemma startProxy_count:
  assumes "quiet P"
  shows "count_ev P (world_of (startProxy env sch (Some a) (Some b) w))
           = count_ev P w + (if P (Splice a b) then 1 else 0)"
  by (simp add: startProxy_def Let_def run_proxy_count[OF assms] logf_count[OF assms] count_ev_emit)

lemma startProxy_outcome:
  "startProxy env sch (Some a) (Some b) w \<noteq> Exit x"
  "startProxy env sch (Some a) (Some b) w \<noteq> Panic x"
  by (simp_all add: startProxy_def Let_def)

subsection \<open>runTunnel\<close>

lemma net_Dial_no_port:
  "\<not> Contains addr '':'' \<Longrightarrow>
     net_Dial addr r w
       = (Inl (missing_port addr), emit (DialLocal addr (Some (missing_port addr))) w)"
  by (simp add: net_Dial_def Let_def)

lemma runTunnel_dispatch:
  "HasPrefix (localAddr t) ''/'' \<Longrightarrow>
     runTunnel cfg t env w = handleUnixSocket cfg t env (logf Info ''starting tunnel'' w)"
  "\<not> HasPrefix (localAddr t) ''/'' \<Longrightarrow> Contains (localAddr t) '':'' \<Longrightarrow>
     runTunnel cfg t env w = handleTCPListener cfg t env (logf Info ''starting tunnel'' w)"
  by (simp_all add: runTunnel_def)

lemma runTunnel_direct:
  assumes d: "\<not> HasPrefix (localAddr t) ''/''" "\<not> Contains (localAddr t) '':''"
  shows "runTunnel cfg t env w
           = (case connectToServer cfg (handshake t) (relay env) (logf Info ''starting tunnel'' w) of
                (Inl err, w1) \<Rightarrow> Returned (logf Error ''could not connect to server'' w1)
              | (Inr serverConn, w1) \<Rightarrow>
                  Returned (conn_Close serverConn
                    (logf Error ''error connecting to local resource''
                       (emit (DialLocal (localAddr t) (Some (missing_port (localAddr t)))) w1))))"
  using d
  by (simp add: runTunnel_def Let_def net_Dial_no_port split: prod.splits sum.splits)

lemma runTunnel_direct_count:
  assumes d: "\<not> HasPrefix (localAddr t) ''/''" "\<not> Contains (localAddr t) '':''"
    and q: "quiet P"
  shows "count_ev P (world_of (runTunnel cfg t env w))
           = count_ev P w
             + (if P (DialRelay (serverAddr cfg @ '':'' @ serverPort cfg) (dial_result (relay env))) then 1 else 0)
             + (if relay_connects (relay env) (logf Info ''starting tunnel'' w)
                   \<and> P (DialLocal (localAddr t) (Some (missing_port (localAddr t)))) then 1 else 0)"
proof -
  let ?w0 = "logf Info ''starting tunnel'' w"
  obtain r w1 where c: "connectToServer cfg (handshake t) (relay env) ?w0 = (r, w1)"
    by (metis prod.exhaust)
  have cnt1: "count_ev P w1 = count_ev P w
      + (if P (DialRelay (serverAddr cfg @ '':'' @ serverPort cfg) (dial_result (relay env))) then 1 else 0)"
    using connectToServer_count[OF q, of cfg "handshake t" "relay env" ?w0] c
    by (simp add: logf_count[OF q])
  show ?thesis
  proof (cases r)
    case (Inl err)
    with connectToServer_Inr[of cfg "handshake t" "relay env" ?w0] c
    have down: "\<not> relay_connects (relay env) ?w0" by auto
    from Inl c down cnt1 show ?thesis
      by (simp add: runTunnel_direct[OF d] logf_count[OF q])
  next
    case (Inr sc)
    with connectToServer_Inr[of cfg "handshake t" "relay env" ?w0 sc] c
    have up: "relay_connects (relay env) ?w0" by auto
    from Inr c up cnt1 show ?thesis
      by (simp add: runTunnel_direct[OF d] logf_count[OF q] conn_Close_count[OF q] count_ev_emit)
  qed
qed

text \<open>
  Claim C6 says that the direct variant dials the local address and runs exactly one
  splice session. The selection rule is as the claim has it (lemma
  \<open>runTunnel_dispatch\<close>), but the direct branch is reached only with a local address
  that holds no colon, and \<^verbatim>\<open>net.Dial("tcp", addr)\<close> refuses every such address
  ("missing port in address"). So for every direct tunnel, whatever the relay and the
  local service do: no session is ever started and \<^verbatim>\<open>runTunnel\<close> returns; the relay
  connector is called once; and when the relay connection was made, the one local dial
  fails on the address and the last thing done is to close the relay connection.
\<close>

theorem runTunnel_direct_never_splices:
  assumes d: "\<not> HasPrefix (localAddr t) ''/''" "\<not> Contains (localAddr t) '':''"
  shows "count_ev is_splice (world_of (runTunnel cfg t env w)) = count_ev is_splice w
         \<and> runTunnel cfg t env w = Returned (world_of (runTunnel cfg t env w))
         \<and> count_ev is_dial_relay (world_of (runTunnel cfg t env w)) = count_ev is_dial_relay w + 1
         \<and> (relay_connects (relay env) (logf Info ''starting tunnel'' w) \<longrightarrow>
               count_ev is_dial_local (world_of (runTunnel cfg t env w)) = count_ev is_dial_local w + 1
               \<and> DialLocal (localAddr t) (Some (missing_port (localAddr t)))
                   \<in> set (trace (world_of (runTunnel cfg t env w)))
               \<and> last (trace (world_of (runTunnel cfg t env w))) = Close (next_conn w))"
proof (intro conjI impI)
  note cnt = runTunnel_direct_count[OF d]
  show "count_ev is_splice (world_of (runTunnel cfg t env w)) = count_ev is_splice w"
    by (simp add: cnt[OF quiet_kinds(5)])
  show "runTunnel cfg t env w = Returned (world_of (runTunnel cfg t env w))"
    by (simp add: runTunnel_direct[OF d] split: prod.splits sum.splits)
  show "count_ev is_dial_relay (world_of (runTunnel cfg t env w)) = count_ev is_dial_relay w + 1"
    by (simp add: cnt[OF quiet_kinds(1)])
next
  let ?w0 = "logf Info ''starting tunnel'' w"
  assume up: "relay_connects (relay env) ?w0"
  obtain r w1 where c: "connectToServer cfg (handshake t) (relay env) ?w0 = (r, w1)"
    by (metis prod.exhaust)
  have n0: "next_conn ?w0 = next_conn w" by (simp add: logf_def emit_def)
  from connectToServer_Inr[of cfg "handshake t" "relay env" ?w0 "next_conn ?w0"] up c
  have r: "r = Inr (next_conn w)" by (simp add: n0)
  show "count_ev is_dial_local (world_of (runTunnel cfg t env w)) = count_ev is_dial_local w + 1"
    using up by (simp add: runTunnel_direct_count[OF d quiet_kinds(2)])
  show "DialLocal (localAddr t) (Some (missing_port (localAddr t)))
          \<in> set (trace (world_of (runTunnel cfg t env w)))"
    using c r by (simp add: runTunnel_direct[OF d] conn_Close_def logf_def emit_def)
  show "last (trace (world_of (runTunnel cfg t env w))) = Close (next_conn w)"
    using c r by (simp add: runTunnel_direct[OF d] conn_Close_def logf_def emit_def)
qed

theorem runTunnel_direct_never_splices_witness:
  "\<not> HasPrefix (localAddr t_direct) ''/'' \<and> \<not> Contains (localAddr t_direct) '':''
   \<and> relay_connects (relay tenv0) (logf Info ''starting tunnel'' w0)
   \<and> local_dial tenv0 = None
   \<and> count_ev is_splice (world_of (runTunnel cfg0 t_direct tenv0 w0)) = 0
   \<and> runTunnel cfg0 t_direct tenv0 w0 = Returned (world_of (runTunnel cfg0 t_direct tenv0 w0))
   \<and> count_ev is_dial_relay (world_of (runTunnel cfg0 t_direct tenv0 w0)) = 1
   \<and> count_ev is_dial_local (world_of (runTunnel cfg0 t_direct tenv0 w0)) = 1
   \<and> DialLocal ''localhost'' (Some (missing_port ''localhost''))
       \<in> set (trace (world_of (runTunnel cfg0 t_direct tenv0 w0)))
   \<and> last (trace (world_of (runTunnel cfg0 t_direct tenv0 w0))) = Close 0"
proof -
  have d1: "\<not> HasPrefix (localAddr t_direct) ''/''" by (simp add: t_direct_def HasPrefix_def)
  have d2: "\<not> Contains (localAddr t_direct) '':''" by (simp add: t_direct_def HasPrefix_def)
  have up: "relay_connects (relay tenv0) (logf Info ''starting tunnel'' w0)"
    by (simp add: relay_connects_def hs_result_def tenv0_def relay_ok_def closed_def
        logf_def emit_def w0_def)
  have ld: "local_dial tenv0 = None" by (simp add: tenv0_def)
  have z: "count_ev is_splice w0 = 0" "count_ev is_dial_relay w0 = 0"
    "count_ev is_dial_local w0 = 0" "next_conn w0 = 0" "localAddr t_direct = ''localhost''"
    by (simp_all add: count_ev_def w0_def t_direct_def)
  from runTunnel_direct_never_splices [OF d1 d2, of cfg0 tenv0 w0] up
  show ?thesis using d1 d2 ld z by simp
qed

subsection \<open>handleUnixSocket: binding the socket\<close>

lemma map_of_filter_ne:
  "map_of (filter (\<lambda>(q, k). q \<noteq> p) fs) q' = (if q' = p then None else map_of fs q')"
  by (induction fs) auto

lemma os_Remove_free:
  assumes "map_of (files w) p \<noteq> Some Directory"
  shows "\<exists>r. trace (snd (os_Remove p None w)) = trace w @ [Remove p r]
              \<and> (map_of (files w) p \<noteq> None \<longrightarrow> r = None)"
    and "map_of (files (snd (os_Remove p None w))) p = None"
    and "q \<noteq> p \<Longrightarrow> map_of (files (snd (os_Remove p None w))) q = map_of (files w) q"
    and "next_conn (snd (os_Remove p None w)) = next_conn w"
  using assms
  by (auto simp: os_Remove_def Let_def emit_def map_of_filter_ne split: option.splits node.splits)

lemma os_MkdirAll_ok:
  assumes "map_of (files w) d = None \<or> map_of (files w) d = Some Directory"
  shows "os_MkdirAll d None w
           = (None, emit (MkdirAll d None)
                (w\<lparr>files := (if map_of (files w) d = None then (d, Directory) # files w else files w)\<rparr>))"
  using assms by (auto simp: os_MkdirAll_def Let_def)

lemma net_Listen_unix_ok:
  assumes "map_of (files w) p = None" "map_of (files w) (filepath_Dir p) = Some Directory"
  shows "net_Listen_unix p None w
           = (None, emit (Listen ''unix'' p None) (w\<lparr>files := (p, SocketFile) # files w\<rparr>))"
  using assms by (simp add: net_Listen_unix_def Let_def)

lemma connectToServer_extends:
  "\<exists>es. trace (snd (connectToServer cfg hs env w)) = trace w @ es"
  "files (snd (connectToServer cfg hs env w)) = files w"
proof -
  show "\<exists>es. trace (snd (connectToServer cfg hs env w)) = trace w @ es"
  proof (cases "dial_result env")
    case None
    show ?thesis by (simp add: connectToServer_dialled(2)[OF None])
  next
    case (Some err)
    show ?thesis by (simp add: connectToServer_refused(2)[OF Some])
  qed
  show "files (snd (connectToServer cfg hs env w)) = files w"
    by (cases "dial_result env")
      (simp_all add: connectToServer_dialled(4) connectToServer_refused(4))
qed

lemma unix_iteration_extends:
  "\<exists>es. trace (unix_iteration cfg t ev w) = trace w @ es"
  "files (unix_iteration cfg t ev w) = files w"
proof -
  show "\<exists>es. trace (unix_iteration cfg t ev w) = trace w @ es"
  proof (cases ev)
    case (AcceptFails err)
    then show ?thesis by (simp add: unix_iteration_def logf_def emit_def)
  next
    case (Accepted renv)
    let ?w1 = "logf Info ''new connection on Unix socket''
                 (emit (Accept (Inr (next_conn w))) (w\<lparr>next_conn := Suc (next_conn w)\<rparr>))"
    obtain r w2 where c: "connectToServer cfg (handshake t) renv ?w1 = (r, w2)"
      by (metis prod.exhaust)
    from connectToServer_extends(1)[of cfg "handshake t" renv ?w1] c
    obtain es where "trace w2 = trace ?w1 @ es" by auto
    then have "trace w2 = trace w @ Accept (Inr (next_conn w))
                  # Log Info ''new connection on Unix socket'' # es"
      by (simp add: logf_def emit_def)
    with Accepted c show ?thesis
      by (cases r) (simp_all add: unix_iteration_def new_conn_def Let_def logf_def emit_def conn_Close_def)
  qed
  show "files (unix_iteration cfg t ev w) = files w"
  proof (cases ev)
    case (AcceptFails err)
    then show ?thesis by (simp add: unix_iteration_def logf_def emit_def)
  next
    case (Accepted renv)
    let ?w1 = "logf Info ''new connection on Unix socket''
                 (emit (Accept (Inr (next_conn w))) (w\<lparr>next_conn := Suc (next_conn w)\<rparr>))"
    obtain r w2 where c: "connectToServer cfg (handshake t) renv ?w1 = (r, w2)"
      by (metis prod.exhaust)
    from connectToServer_extends(2)[of cfg "handshake t" renv ?w1] c
    have "files w2 = files w" by (simp add: logf_def emit_def)
    with Accepted c show ?thesis
      by (cases r) (simp_all add: unix_iteration_def new_conn_def Let_def logf_def emit_def conn_Close_def)
  qed
qed

lemma unix_accept_loop_extends:
  "\<exists>es. trace (unix_accept_loop cfg t evs w) = trace w @ es"
  "files (unix_accept_loop cfg t evs w) = files w"
proof -
  show "\<exists>es. trace (unix_accept_loop cfg t evs w) = trace w @ es"
  proof (induction evs arbitrary: w)
    case Nil
    show ?case by simp
  next
    case (Cons ev evs)
    from Cons.IH[of "unix_iteration cfg t ev w"] unix_iteration_extends(1)[of cfg t ev w]
    show ?case by auto
  qed
  show "files (unix_accept_loop cfg t evs w) = files w"
    by (induction evs arbitrary: w) (simp_all add: unix_iteration_extends(2))
qed

text \<open>
  Claim C7. With a socket file left at the configured path (in a directory that exists
  or can be created), \<^verbatim>\<open>handleUnixSocket\<close> removes the file, then makes sure of the
  directory, then binds: the removal and the bind both succeed, the bind does not fail
  with "address in use", and the function goes on to its accept loop with the new
  socket and its directory in place.
\<close>

theorem handleUnixSocket_stale_socket:
  assumes stale: "map_of (files w) (localAddr t) = Some SocketFile"
    and parent: "map_of (files w) (filepath_Dir (localAddr t)) = None
                 \<or> map_of (files w) (filepath_Dir (localAddr t)) = Some Directory"
    and ne: "filepath_Dir (localAddr t) \<noteq> localAddr t"
    and nofault: "remove_fault env = None" "mkdir_fault env = None" "listen_fault env = None"
  shows "\<exists>rest w'. handleUnixSocket cfg t env w = Blocked w'
           \<and> trace w' = trace w @ Remove (localAddr t) None
                 # MkdirAll (filepath_Dir (localAddr t)) None
                 # Listen ''unix'' (localAddr t) None # rest
           \<and> map_of (files w') (localAddr t) = Some SocketFile
           \<and> map_of (files w') (filepath_Dir (localAddr t)) = Some Directory"
proof -
  let ?p = "localAddr t"
  let ?d = "filepath_Dir ?p"
  define w1 where "w1 = snd (os_Remove ?p None w)"
  have nd: "map_of (files w) ?p \<noteq> Some Directory" using stale by simp
  from os_Remove_free(1)[OF nd] stale
  have t1: "trace w1 = trace w @ [Remove ?p None]" unfolding w1_def by auto
  have f1p: "map_of (files w1) ?p = None"
    unfolding w1_def by (rule os_Remove_free(2)[OF nd])
  have f1d: "map_of (files w1) ?d = map_of (files w) ?d"
    unfolding w1_def by (rule os_Remove_free(3)[OF nd ne])
  define w2 where "w2 = emit (MkdirAll ?d None)
      (w1\<lparr>files := (if map_of (files w1) ?d = None then (?d, Directory) # files w1 else files w1)\<rparr>)"
  have m: "os_MkdirAll ?d None w1 = (None, w2)"
    unfolding w2_def using parent by (intro os_MkdirAll_ok) (simp add: f1d)
  have t2: "trace w2 = trace w1 @ [MkdirAll ?d None]" by (simp add: w2_def emit_def)
  have f2d: "map_of (files w2) ?d = Some Directory"
    using parent by (auto simp: w2_def emit_def f1d)
  have f2p: "map_of (files w2) ?p = None"
    using ne f1p by (simp add: w2_def emit_def)
  define w3 where "w3 = emit (Listen ''unix'' ?p None) (w2\<lparr>files := (?p, SocketFile) # files w2\<rparr>)"
  have l: "net_Listen_unix ?p None w2 = (None, w3)"
    unfolding w3_def by (rule net_Listen_unix_ok[OF f2p f2d])
  have t3: "trace w3 = trace w2 @ [Listen ''unix'' ?p None]" by (simp add: w3_def emit_def)
  have f3p: "map_of (files w3) ?p = Some SocketFile" by (simp add: w3_def emit_def)
  have f3d: "map_of (files w3) ?d = Some Directory"
    using ne f2d by (simp add: w3_def emit_def)
  let ?w4 = "logf Info ''Unix socket created and listening'' w3"
  define w' where "w' = unix_accept_loop cfg t (accepts env) ?w4"
  have h: "handleUnixSocket cfg t env w = Blocked w'"
    using m l by (simp add: handleUnixSocket_def Let_def nofault w1_def[symmetric] w'_def)
  from unix_accept_loop_extends(1)[of cfg t "accepts env" ?w4]
  obtain es where "trace w' = trace ?w4 @ es" unfolding w'_def by blast
  then have tr: "trace w' = trace w @ Remove ?p None # MkdirAll ?d None # Listen ''unix'' ?p None
                   # (Log Info ''Unix socket created and listening'' # es)"
    by (simp add: logf_def emit_def t3 t2 t1)
  have fs: "files w' = files w3"
    unfolding w'_def by (simp add: unix_accept_loop_extends(2) logf_def emit_def)
  from h tr fs f3p f3d show ?thesis by auto
qed

theorem handleUnixSocket_stale_socket_witness:
  "map_of (files w_stale) (localAddr t_unix) = Some SocketFile
   \<and> map_of (files w_stale) (filepath_Dir (localAddr t_unix)) = Some Directory
   \<and> filepath_Dir (localAddr t_unix) \<noteq> localAddr t_unix
   \<and> remove_fault tenv0 = None \<and> mkdir_fault tenv0 = None \<and> listen_fault tenv0 = None
   \<and> (\<exists>rest w'. handleUnixSocket cfg0 t_unix tenv0 w_stale = Blocked w'
           \<and> trace w' = trace w_stale @ Remove (localAddr t_unix) None
                 # MkdirAll (filepath_Dir (localAddr t_unix)) None
                 # Listen ''unix'' (localAddr t_unix) None # rest
           \<and> map_of (files w') (localAddr t_unix) = Some SocketFile
           \<and> map_of (files w') (filepath_Dir (localAddr t_unix)) = Some Directory)"
proof -
  have dir: "filepath_Dir (localAddr t_unix) = ''/var/run''"
    by (simp add: t_unix_def filepath_Dir_def Clean_def HasPrefix_def Let_def)
  have s: "map_of (files w_stale) (localAddr t_unix) = Some SocketFile"
    by (simp add: w_stale_def t_unix_def)
  have p: "map_of (files w_stale) (filepath_Dir (localAddr t_unix)) = Some Directory"
    unfolding dir by (simp add: w_stale_def)
  have ne: "filepath_Dir (localAddr t_unix) \<noteq> localAddr t_unix"
    unfolding dir by (simp add: t_unix_def)
  have f: "remove_fault tenv0 = None" "mkdir_fault tenv0 = None" "listen_fault tenv0 = None"
    by (simp_all add: tenv0_def)
  from handleUnixSocket_stale_socket [OF s disjI2[OF p] ne f, of cfg0]
  show ?thesis using s p ne f by blast
qed

subsection \<open>The accept loops\<close>

lemma relay_fails:
  "dial_result renv \<noteq> None \<or> hs_write_result renv \<noteq> None \<Longrightarrow> \<not> relay_connects renv w"
  by (auto simp: relay_connects_def hs_result_def split: if_splits)

lemma unix_iteration_accepts:
  "count_ev is_accept (unix_iteration cfg t ev w) = count_ev is_accept w + 1"
proof (cases ev)
  case (AcceptFails err)
  then show ?thesis by (simp add: unix_iteration_def logf_def count_ev_emit)
next
  case (Accepted renv)
  let ?w1 = "logf Info ''new connection on Unix socket''
               (emit (Accept (Inr (next_conn w))) (w\<lparr>next_conn := Suc (next_conn w)\<rparr>))"
  obtain r w2 where c: "connectToServer cfg (handshake t) renv ?w1 = (r, w2)"
    by (metis prod.exhaust)
  have "count_ev is_accept ?w1 = count_ev is_accept w + 1"
    by (simp add: logf_def emit_def count_ev_def)
  with connectToServer_count[OF quiet_kinds(4), of cfg "handshake t" renv ?w1] c
  have "count_ev is_accept w2 = count_ev is_accept w + 1" by simp
  with Accepted c show ?thesis
    by (cases r)
      (simp_all add: unix_iteration_def new_conn_def Let_def logf_count[OF quiet_kinds(4)]
        conn_Close_count[OF quiet_kinds(4)] count_ev_emit)
qed

lemma unix_accept_loop_accepts:
  "count_ev is_accept (unix_accept_loop cfg t evs w) = count_ev is_accept w + length evs"
  by (induction evs arbitrary: w) (simp_all add: unix_iteration_accepts)

lemma unix_iteration_accept_fails:
  "trace (unix_iteration cfg t (AcceptFails err) w)
     = trace w @ [Accept (Inl err), Log Error ''error accepting connection on Unix socket'']"
  by (simp add: unix_iteration_def logf_def emit_def)

lemma unix_iteration_connect_fails:
  assumes "dial_result renv \<noteq> None \<or> hs_write_result renv \<noteq> None"
  shows "closed (unix_iteration cfg t (Accepted renv) w) (next_conn w)
         \<and> last (trace (unix_iteration cfg t (Accepted renv) w)) = Close (next_conn w)
         \<and> count_ev is_spawn (unix_iteration cfg t (Accepted renv) w) = count_ev is_spawn w"
proof -
  let ?w1 = "logf Info ''new connection on Unix socket''
               (emit (Accept (Inr (next_conn w))) (w\<lparr>next_conn := Suc (next_conn w)\<rparr>))"
  obtain r w2 where c: "connectToServer cfg (handshake t) renv ?w1 = (r, w2)"
    by (metis prod.exhaust)
  have "\<not> relay_connects renv ?w1" using assms by (rule relay_fails)
  with connectToServer_Inr[of cfg "handshake t" renv ?w1] c
  obtain err where r: "r = Inl err" by (cases r) auto
  have "count_ev is_spawn ?w1 = count_ev is_spawn w"
    by (simp add: logf_def emit_def count_ev_def)
  with connectToServer_count[OF quiet_kinds(6), of cfg "handshake t" renv ?w1] c
  have "count_ev is_spawn w2 = count_ev is_spawn w" by simp
  with c r show ?thesis
    by (simp add: unix_iteration_def new_conn_def Let_def logf_count[OF quiet_kinds(6)]
        conn_Close_def closed_emit trace_emit count_ev_emit)
qed

lemma tcp_iteration_accepts:
  "count_ev is_accept (tcp_iteration cfg t ev w) = count_ev is_accept w + 1"
proof (cases ev)
  case (AcceptFails err)
  then show ?thesis by (simp add: tcp_iteration_def logf_def count_ev_emit)
next
  case (Accepted renv)
  let ?w1 = "logf Info ''new connection on TCP port''
               (emit (Accept (Inr (next_conn w))) (w\<lparr>next_conn := Suc (next_conn w)\<rparr>))"
  obtain r w2 where c: "connectToServer cfg (handshake t) renv ?w1 = (r, w2)"
    by (metis prod.exhaust)
  have "count_ev is_accept ?w1 = count_ev is_accept w + 1"
    by (simp add: logf_def emit_def count_ev_def)
  with connectToServer_count[OF quiet_kinds(4), of cfg "handshake t" renv ?w1] c
  have "count_ev is_accept w2 = count_ev is_accept w + 1" by simp
  with Accepted c show ?thesis
    by (cases r)
      (simp_all add: tcp_iteration_def new_conn_def Let_def logf_count[OF quiet_kinds(4)]
        conn_Close_count[OF quiet_kinds(4)] count_ev_emit)
qed

lemma tcp_accept_loop_accepts:
  "count_ev is_accept (tcp_accept_loop cfg t evs w) = count_ev is_accept w + length evs"
  by (induction evs arbitrary: w) (simp_all add: tcp_iteration_accepts)

lemma tcp_iteration_accept_fails:
  "trace (tcp_iteration cfg t (AcceptFails err) w)
     = trace w @ [Accept (Inl err), Log Error ''error accepting connection on TCP port'']"
  by (simp add: tcp_iteration_def logf_def emit_def)

lemma tcp_iteration_connect_fails:
  assumes "dial_result renv \<noteq> None \<or> hs_write_result renv \<noteq> None"
  shows "closed (tcp_iteration cfg t (Accepted renv) w) (next_conn w)
         \<and> last (trace (tcp_iteration cfg t (Accepted renv) w)) = Close (next_conn w)
         \<and> count_ev is_spawn (tcp_iteration cfg t (Accepted renv) w) = count_ev is_spawn w"
proof -
  let ?w1 = "logf Info ''new connection on TCP port''
               (emit (Accept (Inr (next_conn w))) (w\<lparr>next_conn := Suc (next_conn w)\<rparr>))"
  obtain r w2 where c: "connectToServer cfg (handshake t) renv ?w1 = (r, w2)"
    by (metis prod.exhaust)
  have "\<not> relay_connects renv ?w1" using assms by (rule relay_fails)
  with connectToServer_Inr[of cfg "handshake t" renv ?w1] c
  obtain err where r: "r = Inl err" by (cases r) auto
  have "count_ev is_spawn ?w1 = count_ev is_spawn w"
    by (simp add: logf_def emit_def count_ev_def)
  with connectToServer_count[OF quiet_kinds(6), of cfg "handshake t" renv ?w1] c
  have "count_ev is_spawn w2 = count_ev is_spawn w" by simp
  with c r show ?thesis
    by (simp add: tcp_iteration_def new_conn_def Let_def logf_count[OF quiet_kinds(6)]
        conn_Close_def closed_emit trace_emit count_ev_emit)
qed

lemma handleUnixSocket_outcome:
  "handleUnixSocket cfg t env w \<noteq> Returned w'"
  "handleUnixSocket cfg t env w \<noteq> Panic w'"
  "handleUnixSocket cfg t env w = Exit w' \<Longrightarrow> count_ev is_accept w' = count_ev is_accept w"
  "handleUnixSocket cfg t env w = Blocked w'
     \<Longrightarrow> count_ev is_accept w' = count_ev is_accept w + length (accepts env)"
proof -
  let ?w1 = "snd (os_Remove (localAddr t) (remove_fault env) w)"
  obtain r2 w2 where m: "os_MkdirAll (filepath_Dir (localAddr t)) (mkdir_fault env) ?w1 = (r2, w2)"
    by (metis prod.exhaust)
  obtain r3 w3 where l: "net_Listen_unix (localAddr t) (listen_fault env) w2 = (r3, w3)"
    by (metis prod.exhaust)
  have c1: "count_ev is_accept ?w1 = count_ev is_accept w"
    by (simp add: os_Remove_def Let_def count_ev_emit) (simp add: count_ev_def)
  have "count_ev is_accept (snd (os_MkdirAll (filepath_Dir (localAddr t)) (mkdir_fault env) ?w1))
          = count_ev is_accept ?w1"
    by (simp add: os_MkdirAll_def Let_def count_ev_emit) (simp add: count_ev_def)
  with m c1 have c2: "count_ev is_accept w2 = count_ev is_accept w" by simp
  have "count_ev is_accept (snd (net_Listen_unix (localAddr t) (listen_fault env) w2))
          = count_ev is_accept w2"
    by (simp add: net_Listen_unix_def Let_def count_ev_emit) (simp add: count_ev_def)
  with l c2 have c3: "count_ev is_accept w3 = count_ev is_accept w" by simp
  note q = logf_count[OF quiet_kinds(4)]
  show "handleUnixSocket cfg t env w \<noteq> Returned w'"
    using m l by (simp add: handleUnixSocket_def Let_def split: option.splits)
  show "handleUnixSocket cfg t env w \<noteq> Panic w'"
    using m l by (simp add: handleUnixSocket_def Let_def split: option.splits)
  show "handleUnixSocket cfg t env w = Exit w' \<Longrightarrow> count_ev is_accept w' = count_ev is_accept w"
    using m l c2 c3 by (auto simp: handleUnixSocket_def Let_def q split: option.splits)
  show "handleUnixSocket cfg t env w = Blocked w'
     \<Longrightarrow> count_ev is_accept w' = count_ev is_accept w + length (accepts env)"
    using m l c3
    by (auto simp: handleUnixSocket_def Let_def q unix_accept_loop_accepts split: option.splits)
qed

lemma handleTCPListener_outcome:
  "handleTCPListener cfg t env w \<noteq> Returned w'"
  "handleTCPListener cfg t env w \<noteq> Panic w'"
  "handleTCPListener cfg t env w = Exit w' \<Longrightarrow> count_ev is_accept w' = count_ev is_accept w"
  "handleTCPListener cfg t env w = Blocked w'
     \<Longrightarrow> count_ev is_accept w' = count_ev is_accept w + length (accepts env)"
proof -
  note q = logf_count[OF quiet_kinds(4)]
  show "handleTCPListener cfg t env w \<noteq> Returned w'"
    by (simp add: handleTCPListener_def net_Listen_tcp_def Let_def split: option.splits)
  show "handleTCPListener cfg t env w \<noteq> Panic w'"
    by (simp add: handleTCPListener_def net_Listen_tcp_def Let_def split: option.splits)
  show "handleTCPListener cfg t env w = Exit w' \<Longrightarrow> count_ev is_accept w' = count_ev is_accept w"
    by (auto simp: handleTCPListener_def net_Listen_tcp_def Let_def q count_ev_emit
        split: option.splits)
  show "handleTCPListener cfg t env w = Blocked w'
     \<Longrightarrow> count_ev is_accept w' = count_ev is_accept w + length (accepts env)"
    by (auto simp: handleTCPListener_def net_Listen_tcp_def Let_def q count_ev_emit
        tcp_accept_loop_accepts split: option.splits)
qed

lemma unix_accept_loop_append:
  "unix_accept_loop cfg t (xs @ ys) w = unix_accept_loop cfg t ys (unix_accept_loop cfg t xs w)"
  by (induction xs arbitrary: w) simp_all

lemma unix_iteration_accept_fails_world:
  "unix_iteration cfg t (AcceptFails err) w
     = w\<lparr>trace := trace w @ [Accept (Inl err), Log Error ''error accepting connection on Unix socket'']\<rparr>"
  by (simp add: unix_iteration_def logf_def emit_def)

lemma unix_iteration_relay_fails:
  assumes "dial_result renv \<noteq> None \<or> hs_write_result renv \<noteq> None"
  shows "\<exists>es. trace (unix_iteration cfg t (Accepted renv) w)
                = trace w @ Accept (Inr (next_conn w)) # es
                    @ [Log Error ''could not connect to server'', Close (next_conn w)]
              \<and> (\<forall>e \<in> set es. \<not> is_spawn e \<and> \<not> is_accept e)"
proof -
  let ?c = "next_conn w"
  let ?w1 = "logf Info ''new connection on Unix socket''
               (emit (Accept (Inr ?c)) (w\<lparr>next_conn := Suc ?c\<rparr>))"
  have t1: "trace ?w1 = trace w @ [Accept (Inr ?c), Log Info ''new connection on Unix socket'']"
    by (simp add: logf_def emit_def)
  obtain r w2 where c: "connectToServer cfg (handshake t) renv ?w1 = (r, w2)"
    by (metis prod.exhaust)
  have "\<not> relay_connects renv ?w1" using assms by (rule relay_fails)
  with connectToServer_Inr[of cfg "handshake t" renv ?w1] c
  obtain err where r: "r = Inl err" by (cases r) auto
  have "\<exists>xs. trace w2 = trace ?w1 @ xs \<and> (\<forall>e \<in> set xs. \<not> is_spawn e \<and> \<not> is_accept e)"
  proof (cases "dial_result renv")
    case None
    from connectToServer_dialled(2)[OF None, of cfg "handshake t" ?w1] c
    show ?thesis by (auto split: option.splits)
  next
    case (Some e)
    from connectToServer_refused(2)[OF Some, of cfg "handshake t" ?w1] c
    show ?thesis by auto
  qed
  then obtain xs where xs: "trace w2 = trace ?w1 @ xs"
    "\<forall>e \<in> set xs. \<not> is_spawn e \<and> \<not> is_accept e" by blast
  have "trace (unix_iteration cfg t (Accepted renv) w)
          = trace w2 @ [Log Error ''could not connect to server'', Close ?c]"
    using c r by (simp add: unix_iteration_def new_conn_def Let_def conn_Close_def logf_def emit_def)
  then have "trace (unix_iteration cfg t (Accepted renv) w)
          = trace w @ Accept (Inr ?c) # (Log Info ''new connection on Unix socket'' # xs)
              @ [Log Error ''could not connect to server'', Close ?c]"
    by (simp add: xs(1) t1)
  moreover have "\<forall>e \<in> set (Log Info ''new connection on Unix socket'' # xs).
                   \<not> is_spawn e \<and> \<not> is_accept e"
    using xs(2) by simp
  ultimately show ?thesis by blast
qed

lemma tcp_accept_loop_append:
  "tcp_accept_loop cfg t (xs @ ys) w = tcp_accept_loop cfg t ys (tcp_accept_loop cfg t xs w)"
  by (induction xs arbitrary: w) simp_all

lemma tcp_iteration_accept_fails_world:
  "tcp_iteration cfg t (AcceptFails err) w
     = w\<lparr>trace := trace w @ [Accept (Inl err), Log Error ''error accepting connection on TCP port'']\<rparr>"
  by (simp add: tcp_iteration_def logf_def emit_def)

lemma tcp_iteration_relay_fails:
  assumes "dial_result renv \<noteq> None \<or> hs_write_result renv \<noteq> None"
  shows "\<exists>es. trace (tcp_iteration cfg t (Accepted renv) w)
                = trace w @ Accept (Inr (next_conn w)) # es
                    @ [Log Error ''could not connect to server'', Close (next_conn w)]
              \<and> (\<forall>e \<in> set es. \<not> is_spawn e \<and> \<not> is_accept e)"
proof -
  let ?c = "next_conn w"
  let ?w1 = "logf Info ''new connection on TCP port''
               (emit (Accept (Inr ?c)) (w\<lparr>next_conn := Suc ?c\<rparr>))"
  have t1: "trace ?w1 = trace w @ [Accept (Inr ?c), Log Info ''new connection on TCP port'']"
    by (simp add: logf_def emit_def)
  obtain r w2 where c: "connectToServer cfg (handshake t) renv ?w1 = (r, w2)"
    by (metis prod.exhaust)
  have "\<not> relay_connects renv ?w1" using assms by (rule relay_fails)
  with connectToServer_Inr[of cfg "handshake t" renv ?w1] c
  obtain err where r: "r = Inl err" by (cases r) auto
  have "\<exists>xs. trace w2 = trace ?w1 @ xs \<and> (\<forall>e \<in> set xs. \<not> is_spawn e \<and> \<not> is_accept e)"
  proof (cases "dial_result renv")
    case None
    from connectToServer_dialled(2)[OF None, of cfg "handshake t" ?w1] c
    show ?thesis by (auto split: option.splits)
  next
    case (Some e)
    from connectToServer_refused(2)[OF Some, of cfg "handshake t" ?w1] c
    show ?thesis by auto
  qed
  then obtain xs where xs: "trace w2 = trace ?w1 @ xs"
    "\<forall>e \<in> set xs. \<not> is_spawn e \<and> \<not> is_accept e" by blast
  have "trace (tcp_iteration cfg t (Accepted renv) w)
          = trace w2 @ [Log Error ''could not connect to server'', Close ?c]"
    using c r by (simp add: tcp_iteration_def new_conn_def Let_def conn_Close_def logf_def emit_def)
  then have "trace (tcp_iteration cfg t (Accepted renv) w)
          = trace w @ Accept (Inr ?c) # (Log Info ''new connection on TCP port'' # xs)
              @ [Log Error ''could not connect to server'', Close ?c]"
    by (simp add: xs(1) t1)
  moreover have "\<forall>e \<in> set (Log Info ''new connection on TCP port'' # xs).
                   \<not> is_spawn e \<and> \<not> is_accept e"
    using xs(2) by simp
  ultimately show ?thesis by blast
qed

lemma os_MkdirAll_trace:
  "trace (snd (os_MkdirAll d f w)) = trace w @ [MkdirAll d (fst (os_MkdirAll d f w))]"
  by (simp add: os_MkdirAll_def Let_def emit_def)

lemma net_Listen_unix_trace:
  "trace (snd (net_Listen_unix p f w)) = trace w @ [Listen ''unix'' p (fst (net_Listen_unix p f w))]"
  by (simp add: net_Listen_unix_def Let_def emit_def)

lemma handleUnixSocket_shape:
  "(\<exists>x pre ev m. (\<forall>evs. handleUnixSocket cfg t (env\<lparr>accepts := evs\<rparr>) w = Exit x)
       \<and> trace x = pre @ [ev, Log Fatal m] \<and> bind_failed ev)
   \<or> (\<exists>ws. \<forall>evs. handleUnixSocket cfg t (env\<lparr>accepts := evs\<rparr>) w
                      = Blocked (unix_accept_loop cfg t evs ws))"
proof -
  let ?p = "localAddr t"
  let ?w1 = "snd (os_Remove ?p (remove_fault env) w)"
  obtain r2 w2 where m: "os_MkdirAll (filepath_Dir ?p) (mkdir_fault env) ?w1 = (r2, w2)"
    by (metis prod.exhaust)
  obtain r3 w3 where l: "net_Listen_unix ?p (listen_fault env) w2 = (r3, w3)"
    by (metis prod.exhaust)
  from os_MkdirAll_trace[of "filepath_Dir ?p" "mkdir_fault env" ?w1] m
  have t2: "trace w2 = trace ?w1 @ [MkdirAll (filepath_Dir ?p) r2]" by simp
  from net_Listen_unix_trace[of ?p "listen_fault env" w2] l
  have t3: "trace w3 = trace w2 @ [Listen ''unix'' ?p r3]" by simp
  show ?thesis
  proof (cases r2)
    case (Some e)
    let ?x = "logf Fatal ''could not create directory for socket'' w2"
    have "\<forall>evs. handleUnixSocket cfg t (env\<lparr>accepts := evs\<rparr>) w = Exit ?x"
      using m Some by (simp add: handleUnixSocket_def Let_def)
    moreover have "trace ?x = trace ?w1 @ [MkdirAll (filepath_Dir ?p) (Some e),
                      Log Fatal ''could not create directory for socket'']"
      using t2 Some by (simp add: logf_def emit_def)
    moreover have "bind_failed (MkdirAll (filepath_Dir ?p) (Some e))" by simp
    ultimately show ?thesis by blast
  next
    case None
    show ?thesis
    proof (cases r3)
      case (Some e)
      let ?x = "logf Fatal ''could not create Unix socket'' w3"
      have "\<forall>evs. handleUnixSocket cfg t (env\<lparr>accepts := evs\<rparr>) w = Exit ?x"
        using m l None Some by (simp add: handleUnixSocket_def Let_def)
      moreover have "trace ?x = trace w2 @ [Listen ''unix'' ?p (Some e),
                        Log Fatal ''could not create Unix socket'']"
        using t3 Some by (simp add: logf_def emit_def)
      moreover have "bind_failed (Listen ''unix'' ?p (Some e))" by simp
      ultimately show ?thesis by blast
    next
      case N3: None
      have "\<forall>evs. handleUnixSocket cfg t (env\<lparr>accepts := evs\<rparr>) w
               = Blocked (unix_accept_loop cfg t evs
                   (logf Info ''Unix socket created and listening'' w3))"
        using m l None N3 by (simp add: handleUnixSocket_def Let_def)
      then show ?thesis by blast
    qed
  qed
qed

lemma handleUnixSocket_continue:
  assumes "handleUnixSocket cfg t (env\<lparr>accepts := evs\<rparr>) w = Blocked w1"
  shows "handleUnixSocket cfg t (env\<lparr>accepts := evs @ rest\<rparr>) w
           = Blocked (unix_accept_loop cfg t rest w1)"
proof -
  from handleUnixSocket_shape[of cfg t env w] assms
  obtain ws where ws: "\<forall>evs. handleUnixSocket cfg t (env\<lparr>accepts := evs\<rparr>) w
                      = Blocked (unix_accept_loop cfg t evs ws)"
    by auto
  with assms have "w1 = unix_accept_loop cfg t evs ws" by simp
  with ws show ?thesis by (simp add: unix_accept_loop_append)
qed

lemma handleUnixSocket_exit:
  assumes "handleUnixSocket cfg t env w = Exit x"
  shows "\<exists>pre ev m. trace x = pre @ [ev, Log Fatal m] \<and> bind_failed ev"
proof -
  have e: "env\<lparr>accepts := accepts env\<rparr> = env" by simp
  from handleUnixSocket_shape[of cfg t env w]
  show ?thesis
  proof
    assume "\<exists>x pre ev m. (\<forall>evs. handleUnixSocket cfg t (env\<lparr>accepts := evs\<rparr>) w = Exit x)
       \<and> trace x = pre @ [ev, Log Fatal m] \<and> bind_failed ev"
    then obtain y pre ev m where y: "\<forall>evs. handleUnixSocket cfg t (env\<lparr>accepts := evs\<rparr>) w = Exit y"
      "trace y = pre @ [ev, Log Fatal m]" "bind_failed ev" by blast
    from y(1) have "handleUnixSocket cfg t (env\<lparr>accepts := accepts env\<rparr>) w = Exit y" by blast
    with assms e have "y = x" by simp
    with y show ?thesis by blast
  next
    assume "\<exists>ws. \<forall>evs. handleUnixSocket cfg t (env\<lparr>accepts := evs\<rparr>) w
                      = Blocked (unix_accept_loop cfg t evs ws)"
    then obtain ws where "handleUnixSocket cfg t (env\<lparr>accepts := accepts env\<rparr>) w
                      = Blocked (unix_accept_loop cfg t (accepts env) ws)" by blast
    with assms e show ?thesis by simp
  qed
qed

lemma handleTCPListener_shape:
  "(\<exists>x pre ev m. (\<forall>evs. handleTCPListener cfg t (env\<lparr>accepts := evs\<rparr>) w = Exit x)
       \<and> trace x = pre @ [ev, Log Fatal m] \<and> bind_failed ev)
   \<or> (\<exists>ws. \<forall>evs. handleTCPListener cfg t (env\<lparr>accepts := evs\<rparr>) w
                      = Blocked (tcp_accept_loop cfg t evs ws))"
proof (cases "listen_fault env")
  case None
  then have "\<forall>evs. handleTCPListener cfg t (env\<lparr>accepts := evs\<rparr>) w
               = Blocked (tcp_accept_loop cfg t evs
                   (logf Info ''TCP listener created and listening''
                      (emit (Listen ''tcp'' (localAddr t) None) w)))"
    by (simp add: handleTCPListener_def net_Listen_tcp_def Let_def)
  then show ?thesis by blast
next
  case (Some e)
  let ?x = "logf Fatal ''could not create TCP listener'' (emit (Listen ''tcp'' (localAddr t) (Some e)) w)"
  have "\<forall>evs. handleTCPListener cfg t (env\<lparr>accepts := evs\<rparr>) w = Exit ?x"
    using Some by (simp add: handleTCPListener_def net_Listen_tcp_def Let_def)
  moreover have "trace ?x = trace w @ [Listen ''tcp'' (localAddr t) (Some e),
                    Log Fatal ''could not create TCP listener'']"
    by (simp add: logf_def emit_def)
  moreover have "bind_failed (Listen ''tcp'' (localAddr t) (Some e))" by simp
  ultimately show ?thesis by blast
qed

lemma handleTCPListener_continue:
  assumes "handleTCPListener cfg t (env\<lparr>accepts := evs\<rparr>) w = Blocked w1"
  shows "handleTCPListener cfg t (env\<lparr>accepts := evs @ rest\<rparr>) w
           = Blocked (tcp_accept_loop cfg t rest w1)"
proof -
  from handleTCPListener_shape[of cfg t env w] assms
  obtain ws where ws: "\<forall>evs. handleTCPListener cfg t (env\<lparr>accepts := evs\<rparr>) w
                      = Blocked (tcp_accept_loop cfg t evs ws)"
    by auto
  with assms have "w1 = tcp_accept_loop cfg t evs ws" by simp
  with ws show ?thesis by (simp add: tcp_accept_loop_append)
qed

lemma handleTCPListener_exit:
  assumes "handleTCPListener cfg t env w = Exit x"
  shows "\<exists>pre ev m. trace x = pre @ [ev, Log Fatal m] \<and> bind_failed ev"
proof -
  have e: "env\<lparr>accepts := accepts env\<rparr> = env" by simp
  from handleTCPListener_shape[of cfg t env w]
  show ?thesis
  proof
    assume "\<exists>x pre ev m. (\<forall>evs. handleTCPListener cfg t (env\<lparr>accepts := evs\<rparr>) w = Exit x)
       \<and> trace x = pre @ [ev, Log Fatal m] \<and> bind_failed ev"
    then obtain y pre ev m where y: "\<forall>evs. handleTCPListener cfg t (env\<lparr>accepts := evs\<rparr>) w = Exit y"
      "trace y = pre @ [ev, Log Fatal m]" "bind_failed ev" by blast
    from y(1) have "handleTCPListener cfg t (env\<lparr>accepts := accepts env\<rparr>) w = Exit y" by blast
    with assms e have "y = x" by simp
    with y show ?thesis by blast
  next
    assume "\<exists>ws. \<forall>evs. handleTCPListener cfg t (env\<lparr>accepts := evs\<rparr>) w
                      = Blocked (tcp_accept_loop cfg t evs ws)"
    then obtain ws where "handleTCPListener cfg t (env\<lparr>accepts := accepts env\<rparr>) w
                      = Blocked (tcp_accept_loop cfg t (accepts env) ws)" by blast
    with assms e show ?thesis by simp
  qed
qed


lemma handleUnixSocket_survives:
  "(handleUnixSocket cfg t (env\<lparr>accepts := evs\<rparr>) w = Blocked w1 \<longrightarrow>
      handleUnixSocket cfg t (env\<lparr>accepts := evs @ [AcceptFails err]\<rparr>) w
        = Blocked (w1\<lparr>trace := trace w1 @ [Accept (Inl err), Log Error ''error accepting connection on Unix socket'']\<rparr>)
      \<and> (dial_result renv \<noteq> None \<or> hs_write_result renv \<noteq> None \<longrightarrow>
           (\<exists>w2 es. handleUnixSocket cfg t (env\<lparr>accepts := evs @ [Accepted renv]\<rparr>) w = Blocked w2
              \<and> trace w2 = trace w1 @ Accept (Inr (next_conn w1)) # es
                    @ [Log Error ''could not connect to server'', Close (next_conn w1)]
              \<and> (\<forall>e \<in> set es. \<not> is_spawn e \<and> \<not> is_accept e)))
      \<and> (\<exists>w3. handleUnixSocket cfg t (env\<lparr>accepts := evs @ rest\<rparr>) w = Blocked w3
              \<and> count_ev is_accept w3 = count_ev is_accept w1 + length rest))
   \<and> (\<forall>x. handleUnixSocket cfg t env w \<noteq> Returned x)
   \<and> (\<forall>x. handleUnixSocket cfg t env w = Exit x \<longrightarrow>
          count_ev is_accept x = count_ev is_accept w
          \<and> (\<exists>pre ev m. trace x = pre @ [ev, Log Fatal m] \<and> bind_failed ev))"
proof (intro conjI impI allI)
  assume h: "handleUnixSocket cfg t (env\<lparr>accepts := evs\<rparr>) w = Blocked w1"
  note c = handleUnixSocket_continue[OF h]
  show "handleUnixSocket cfg t (env\<lparr>accepts := evs @ [AcceptFails err]\<rparr>) w
        = Blocked (w1\<lparr>trace := trace w1 @ [Accept (Inl err), Log Error ''error accepting connection on Unix socket'']\<rparr>)"
    by (simp add: c unix_iteration_accept_fails_world)
  show "\<exists>w3. handleUnixSocket cfg t (env\<lparr>accepts := evs @ rest\<rparr>) w = Blocked w3
              \<and> count_ev is_accept w3 = count_ev is_accept w1 + length rest"
    by (simp add: c unix_accept_loop_accepts)
  assume f: "dial_result renv \<noteq> None \<or> hs_write_result renv \<noteq> None"
  from unix_iteration_relay_fails[OF f, of cfg t w1]
  show "\<exists>w2 es. handleUnixSocket cfg t (env\<lparr>accepts := evs @ [Accepted renv]\<rparr>) w = Blocked w2
              \<and> trace w2 = trace w1 @ Accept (Inr (next_conn w1)) # es
                    @ [Log Error ''could not connect to server'', Close (next_conn w1)]
              \<and> (\<forall>e \<in> set es. \<not> is_spawn e \<and> \<not> is_accept e)"
    by (simp add: c)
next
  fix x show "handleUnixSocket cfg t env w \<noteq> Returned x"
    by (rule handleUnixSocket_outcome(1))
next
  fix x assume e: "handleUnixSocket cfg t env w = Exit x"
  show "count_ev is_accept x = count_ev is_accept w"
    by (rule handleUnixSocket_outcome(3)[OF e])
  show "\<exists>pre ev m. trace x = pre @ [ev, Log Fatal m] \<and> bind_failed ev"
    by (rule handleUnixSocket_exit[OF e])
qed

lemma handleTCPListener_survives:
  "(handleTCPListener cfg t (env\<lparr>accepts := evs\<rparr>) w = Blocked w1 \<longrightarrow>
      handleTCPListener cfg t (env\<lparr>accepts := evs @ [AcceptFails err]\<rparr>) w
        = Blocked (w1\<lparr>trace := trace w1 @ [Accept (Inl err), Log Error ''error accepting connection on TCP port'']\<rparr>)
      \<and> (dial_result renv \<noteq> None \<or> hs_write_result renv \<noteq> None \<longrightarrow>
           (\<exists>w2 es. handleTCPListener cfg t (env\<lparr>accepts := evs @ [Accepted renv]\<rparr>) w = Blocked w2
              \<and> trace w2 = trace w1 @ Accept (Inr (next_conn w1)) # es
                    @ [Log Error ''could not connect to server'', Close (next_conn w1)]
              \<and> (\<forall>e \<in> set es. \<not> is_spawn e \<and> \<not> is_accept e)))
      \<and> (\<exists>w3. handleTCPListener cfg t (env\<lparr>accepts := evs @ rest\<rparr>) w = Blocked w3
              \<and> count_ev is_accept w3 = count_ev is_accept w1 + length rest))
   \<and> (\<forall>x. handleTCPListener cfg t env w \<noteq> Returned x)
   \<and> (\<forall>x. handleTCPListener cfg t env w = Exit x \<longrightarrow>
          count_ev is_accept x = count_ev is_accept w
          \<and> (\<exists>pre ev m. trace x = pre @ [ev, Log Fatal m] \<and> bind_failed ev))"
proof (intro conjI impI allI)
  assume h: "handleTCPListener cfg t (env\<lparr>accepts := evs\<rparr>) w = Blocked w1"
  note c = handleTCPListener_continue[OF h]
  show "handleTCPListener cfg t (env\<lparr>accepts := evs @ [AcceptFails err]\<rparr>) w
        = Blocked (w1\<lparr>trace := trace w1 @ [Accept (Inl err), Log Error ''error accepting connection on TCP port'']\<rparr>)"
    by (simp add: c tcp_iteration_accept_fails_world)
  show "\<exists>w3. handleTCPListener cfg t (env\<lparr>accepts := evs @ rest\<rparr>) w = Blocked w3
              \<and> count_ev is_accept w3 = count_ev is_accept w1 + length rest"
    by (simp add: c tcp_accept_loop_accepts)
  assume f: "dial_result renv \<noteq> None \<or> hs_write_result renv \<noteq> None"
  from tcp_iteration_relay_fails[OF f, of cfg t w1]
  show "\<exists>w2 es. handleTCPListener cfg t (env\<lparr>accepts := evs @ [Accepted renv]\<rparr>) w = Blocked w2
              \<and> trace w2 = trace w1 @ Accept (Inr (next_conn w1)) # es
                    @ [Log Error ''could not connect to server'', Close (next_conn w1)]
              \<and> (\<forall>e \<in> set es. \<not> is_spawn e \<and> \<not> is_accept e)"
    by (simp add: c)
next
  fix x show "handleTCPListener cfg t env w \<noteq> Returned x"
    by (rule handleTCPListener_outcome(1))
next
  fix x assume e: "handleTCPListener cfg t env w = Exit x"
  show "count_ev is_accept x = count_ev is_accept w"
    by (rule handleTCPListener_outcome(3)[OF e])
  show "\<exists>pre ev m. trace x = pre @ [ev, Log Fatal m] \<and> bind_failed ev"
    by (rule handleTCPListener_exit[OF e])
qed

text \<open>
  Claim C8, for \<^verbatim>\<open>handleUnixSocket\<close> and for \<^verbatim>\<open>handleTCPListener\<close>. Take a handler
  whose listener is bound and that has been through any accepts \<open>evs\<close>, errors among
  them, and now waits in the world \<open>wub\<close> (\<open>wtb\<close>). If the next \<^verbatim>\<open>Accept\<close> fails,
  the handler logs the error, does nothing else and waits again. If the next accepted
  connection cannot be connected to the relay (the dial or the handshake write
  fails), the handler starts no session and accepts nothing in between, logs the
  failure, closes the accepted connection last and waits again. Whatever accepts
  \<open>rest\<close> follow, the handler takes every one of them. The handler never returns,
  and it ends the process only before its first \<^verbatim>\<open>Accept\<close>, right after a failed
  \<^verbatim>\<open>MkdirAll\<close> or \<^verbatim>\<open>Listen\<close>.
\<close>

theorem accept_loops_survive_errors:
  "((handleUnixSocket cfg tu (eu\<lparr>accepts := evs\<rparr>) wu = Blocked wub \<longrightarrow>
      handleUnixSocket cfg tu (eu\<lparr>accepts := evs @ [AcceptFails err]\<rparr>) wu
        = Blocked (wub\<lparr>trace := trace wub @ [Accept (Inl err), Log Error ''error accepting connection on Unix socket'']\<rparr>)
      \<and> (dial_result renv \<noteq> None \<or> hs_write_result renv \<noteq> None \<longrightarrow>
           (\<exists>w2 es. handleUnixSocket cfg tu (eu\<lparr>accepts := evs @ [Accepted renv]\<rparr>) wu = Blocked w2
              \<and> trace w2 = trace wub @ Accept (Inr (next_conn wub)) # es
                    @ [Log Error ''could not connect to server'', Close (next_conn wub)]
              \<and> (\<forall>e \<in> set es. \<not> is_spawn e \<and> \<not> is_accept e)))
      \<and> (\<exists>w3. handleUnixSocket cfg tu (eu\<lparr>accepts := evs @ rest\<rparr>) wu = Blocked w3
              \<and> count_ev is_accept w3 = count_ev is_accept wub + length rest))
   \<and> (\<forall>x. handleUnixSocket cfg tu eu wu \<noteq> Returned x)
   \<and> (\<forall>x. handleUnixSocket cfg tu eu wu = Exit x \<longrightarrow>
          count_ev is_accept x = count_ev is_accept wu
          \<and> (\<exists>pre ev m. trace x = pre @ [ev, Log Fatal m] \<and> bind_failed ev)))
   \<and> ((handleTCPListener cfg tt (et\<lparr>accepts := evs\<rparr>) wt = Blocked wtb \<longrightarrow>
      handleTCPListener cfg tt (et\<lparr>accepts := evs @ [AcceptFails err]\<rparr>) wt
        = Blocked (wtb\<lparr>trace := trace wtb @ [Accept (Inl err), Log Error ''error accepting connection on TCP port'']\<rparr>)
      \<and> (dial_result renv \<noteq> None \<or> hs_write_result renv \<noteq> None \<longrightarrow>
           (\<exists>w2 es. handleTCPListener cfg tt (et\<lparr>accepts := evs @ [Accepted renv]\<rparr>) wt = Blocked w2
              \<and> trace w2 = trace wtb @ Accept (Inr (next_conn wtb)) # es
                    @ [Log Error ''could not connect to server'', Close (next_conn wtb)]
              \<and> (\<forall>e \<in> set es. \<not> is_spawn e \<and> \<not> is_accept e)))
      \<and> (\<exists>w3. handleTCPListener cfg tt (et\<lparr>accepts := evs @ rest\<rparr>) wt = Blocked w3
              \<and> count_ev is_accept w3 = count_ev is_accept wtb + length rest))
   \<and> (\<forall>x. handleTCPListener cfg tt et wt \<noteq> Returned x)
   \<and> (\<forall>x. handleTCPListener cfg tt et wt = Exit x \<longrightarrow>
          count_ev is_accept x = count_ev is_accept wt
          \<and> (\<exists>pre ev m. trace x = pre @ [ev, Log Fatal m] \<and> bind_failed ev)))"
  by (rule conjI) (rule handleUnixSocket_survives, rule handleTCPListener_survives)


lemma outcome_Exit: "\<exists>x. out = Exit x \<Longrightarrow> out = Exit (world_of out)"
  by auto

lemma outcome_Blocked: "\<exists>x. out = Blocked x \<Longrightarrow> out = Blocked (world_of out)"
  by auto

theorem accept_loops_survive_errors_witness:
  "dial_result relay_refused \<noteq> None
   \<and> handleUnixSocket cfg0 t_unix (tenv0\<lparr>accepts := evs0\<rparr>) w_stale = Blocked wu_bound
   \<and> handleUnixSocket cfg0 t_unix (tenv0\<lparr>accepts := evs0 @ [AcceptFails (OpError ''accept: interrupted'')]\<rparr>) w_stale
       = Blocked (wu_bound\<lparr>trace := trace wu_bound @ [Accept (Inl (OpError ''accept: interrupted'')),
                                               Log Error ''error accepting connection on Unix socket'']\<rparr>)
   \<and> (\<exists>w2 es. handleUnixSocket cfg0 t_unix (tenv0\<lparr>accepts := evs0 @ [Accepted relay_refused]\<rparr>) w_stale = Blocked w2
          \<and> trace w2 = trace wu_bound @ Accept (Inr (next_conn wu_bound)) # es
                @ [Log Error ''could not connect to server'', Close (next_conn wu_bound)]
          \<and> (\<forall>e \<in> set es. \<not> is_spawn e \<and> \<not> is_accept e))
   \<and> (\<exists>w3. handleUnixSocket cfg0 t_unix (tenv0\<lparr>accepts := evs0 @ accepts tenv0\<rparr>) w_stale = Blocked w3
          \<and> count_ev is_accept w3 = count_ev is_accept wu_bound + length (accepts tenv0))
   \<and> handleUnixSocket cfg0 t_unix tenv_bind_fails w0 = Exit (world_of (handleUnixSocket cfg0 t_unix tenv_bind_fails w0))
   \<and> count_ev is_accept (world_of (handleUnixSocket cfg0 t_unix tenv_bind_fails w0)) = count_ev is_accept w0
   \<and> (\<exists>pre ev m. trace (world_of (handleUnixSocket cfg0 t_unix tenv_bind_fails w0)) = pre @ [ev, Log Fatal m]
          \<and> bind_failed ev)
   \<and> handleTCPListener cfg0 t_tcp (tenv0\<lparr>accepts := evs0\<rparr>) w0 = Blocked wt_bound
   \<and> handleTCPListener cfg0 t_tcp (tenv0\<lparr>accepts := evs0 @ [AcceptFails (OpError ''accept: interrupted'')]\<rparr>) w0
       = Blocked (wt_bound\<lparr>trace := trace wt_bound @ [Accept (Inl (OpError ''accept: interrupted'')),
                                               Log Error ''error accepting connection on TCP port'']\<rparr>)
   \<and> (\<exists>w2 es. handleTCPListener cfg0 t_tcp (tenv0\<lparr>accepts := evs0 @ [Accepted relay_refused]\<rparr>) w0 = Blocked w2
          \<and> trace w2 = trace wt_bound @ Accept (Inr (next_conn wt_bound)) # es
                @ [Log Error ''could not connect to server'', Close (next_conn wt_bound)]
          \<and> (\<forall>e \<in> set es. \<not> is_spawn e \<and> \<not> is_accept e))
   \<and> (\<exists>w3. handleTCPListener cfg0 t_tcp (tenv0\<lparr>accepts := evs0 @ accepts tenv0\<rparr>) w0 = Blocked w3
          \<and> count_ev is_accept w3 = count_ev is_accept wt_bound + length (accepts tenv0))
   \<and> handleTCPListener cfg0 t_tcp tenv_bind_fails w0 = Exit (world_of (handleTCPListener cfg0 t_tcp tenv_bind_fails w0))
   \<and> count_ev is_accept (world_of (handleTCPListener cfg0 t_tcp tenv_bind_fails w0)) = count_ev is_accept w0
   \<and> (\<exists>pre ev m. trace (world_of (handleTCPListener cfg0 t_tcp tenv_bind_fails w0)) = pre @ [ev, Log Fatal m]
          \<and> bind_failed ev)"
proof -
  have d: "dial_result relay_refused \<noteq> None" by (simp add: relay_refused_def)
  have dir: "filepath_Dir (localAddr t_unix) = ''/var/run''"
    by (simp add: t_unix_def filepath_Dir_def Clean_def HasPrefix_def Let_def)
  have dir': "filepath_Dir ''/var/run/usbmuxd'' = ''/var/run''"
    by (simp add: filepath_Dir_def Clean_def HasPrefix_def Let_def)
  have "\<exists>x. handleUnixSocket cfg0 t_unix tenv_bind_fails w0 = Exit x"
    by (simp add: handleUnixSocket_def Let_def dir os_Remove_def os_MkdirAll_def
        net_Listen_unix_def tenv_bind_fails_def tenv0_def w0_def emit_def)
  then have ue: "handleUnixSocket cfg0 t_unix tenv_bind_fails w0
      = Exit (world_of (handleUnixSocket cfg0 t_unix tenv_bind_fails w0))"
    by (rule outcome_Exit)
  have "\<exists>x. handleUnixSocket cfg0 t_unix (tenv0\<lparr>accepts := evs0\<rparr>) w_stale = Blocked x"
    by (simp add: handleUnixSocket_def Let_def dir' os_Remove_def os_MkdirAll_def
        net_Listen_unix_def tenv0_def w_stale_def emit_def t_unix_def)
  then have ub: "handleUnixSocket cfg0 t_unix (tenv0\<lparr>accepts := evs0\<rparr>) w_stale = Blocked wu_bound"
    unfolding wu_bound_def by (rule outcome_Blocked)
  have "\<exists>x. handleTCPListener cfg0 t_tcp tenv_bind_fails w0 = Exit x"
    by (simp add: handleTCPListener_def Let_def net_Listen_tcp_def tenv_bind_fails_def tenv0_def)
  then have te: "handleTCPListener cfg0 t_tcp tenv_bind_fails w0
      = Exit (world_of (handleTCPListener cfg0 t_tcp tenv_bind_fails w0))"
    by (rule outcome_Exit)
  have "\<exists>x. handleTCPListener cfg0 t_tcp (tenv0\<lparr>accepts := evs0\<rparr>) w0 = Blocked x"
    by (simp add: handleTCPListener_def Let_def net_Listen_tcp_def tenv0_def)
  then have tb: "handleTCPListener cfg0 t_tcp (tenv0\<lparr>accepts := evs0\<rparr>) w0 = Blocked wt_bound"
    unfolding wt_bound_def by (rule outcome_Blocked)
  note i1 = accept_loops_survive_errors
    [where cfg = cfg0 and evs = evs0 and err = "OpError ''accept: interrupted''"
       and renv = relay_refused and rest = "accepts tenv0"
       and tu = t_unix and eu = tenv0 and wu = w_stale and wub = wu_bound
       and tt = t_tcp and et = tenv0 and wt = w0 and wtb = wt_bound]
  note i2 = accept_loops_survive_errors
    [where cfg = cfg0 and tu = t_unix and eu = tenv_bind_fails and wu = w0
       and tt = t_tcp and et = tenv_bind_fails and wt = w0]
  from i1 ub tb d have a: "handleUnixSocket cfg0 t_unix (tenv0\<lparr>accepts := evs0 @ [AcceptFails (OpError ''accept: interrupted'')]\<rparr>) w_stale
       = Blocked (wu_bound\<lparr>trace := trace wu_bound @ [Accept (Inl (OpError ''accept: interrupted'')),
                                               Log Error ''error accepting connection on Unix socket'']\<rparr>)
   \<and> (\<exists>w2 es. handleUnixSocket cfg0 t_unix (tenv0\<lparr>accepts := evs0 @ [Accepted relay_refused]\<rparr>) w_stale = Blocked w2
          \<and> trace w2 = trace wu_bound @ Accept (Inr (next_conn wu_bound)) # es
                @ [Log Error ''could not connect to server'', Close (next_conn wu_bound)]
          \<and> (\<forall>e \<in> set es. \<not> is_spawn e \<and> \<not> is_accept e))
   \<and> (\<exists>w3. handleUnixSocket cfg0 t_unix (tenv0\<lparr>accepts := evs0 @ accepts tenv0\<rparr>) w_stale = Blocked w3
          \<and> count_ev is_accept w3 = count_ev is_accept wu_bound + length (accepts tenv0))"
    by blast
  from i1 ub tb d have b: "handleTCPListener cfg0 t_tcp (tenv0\<lparr>accepts := evs0 @ [AcceptFails (OpError ''accept: interrupted'')]\<rparr>) w0
       = Blocked (wt_bound\<lparr>trace := trace wt_bound @ [Accept (Inl (OpError ''accept: interrupted'')),
                                               Log Error ''error accepting connection on TCP port'']\<rparr>)
   \<and> (\<exists>w2 es. handleTCPListener cfg0 t_tcp (tenv0\<lparr>accepts := evs0 @ [Accepted relay_refused]\<rparr>) w0 = Blocked w2
          \<and> trace w2 = trace wt_bound @ Accept (Inr (next_conn wt_bound)) # es
                @ [Log Error ''could not connect to server'', Close (next_conn wt_bound)]
          \<and> (\<forall>e \<in> set es. \<not> is_spawn e \<and> \<not> is_accept e))
   \<and> (\<exists>w3. handleTCPListener cfg0 t_tcp (tenv0\<lparr>accepts := evs0 @ accepts tenv0\<rparr>) w0 = Blocked w3
          \<and> count_ev is_accept w3 = count_ev is_accept wt_bound + length (accepts tenv0))"
    by blast
  from i2 ue have c: "count_ev is_accept (world_of (handleUnixSocket cfg0 t_unix tenv_bind_fails w0)) = count_ev is_accept w0
   \<and> (\<exists>pre ev m. trace (world_of (handleUnixSocket cfg0 t_unix tenv_bind_fails w0)) = pre @ [ev, Log Fatal m]
          \<and> bind_failed ev)"
    by blast
  from i2 te have e: "count_ev is_accept (world_of (handleTCPListener cfg0 t_tcp tenv_bind_fails w0)) = count_ev is_accept w0
   \<and> (\<exists>pre ev m. trace (world_of (handleTCPListener cfg0 t_tcp tenv_bind_fails w0)) = pre @ [ev, Log Fatal m]
          \<and> bind_failed ev)"
    by blast
  from d ub tb ue te a b c e show ?thesis by blast
qed

end
